theory Spec2Isabelle
  imports Main "HOL-Library.Word" "HOL-Library.Char_ord" "HOL-Library.List_Lexorder"
begin

unbundle bit_operations_syntax

section \<open>The JSON value of json_value.h\<close>

text \<open>
  A \<open>double\<close> is kept as its 64 bits (IEEE-754 binary64): sign bit 63, exponent bits
  62..52, mantissa bits 51..0. Classification, equality, ordering and negation of
  doubles are functions of the bits and are written out below. Rounded arithmetic and
  \<open>printf\<close> formatting are not: they are parameters of the parser and the writers.
  A \<open>std::string\<close> is a \<open>string\<close> (one \<open>char\<close> per byte), a \<open>std::vector\<close> a list,
  and a \<open>std::map\<close> from \<open>std::string\<close> to \<open>json_value\<close> the list of its entries in iteration order,
  that is, strictly ascending by key under \<open>std::less\<close> of \<open>std::string\<close> (bytes compared
  as unsigned, shorter prefix first). A \<open>size_t\<close> is a \<open>nat\<close>; allocation limits are
  outside the model.
\<close>

type_synonym double = "64 word"

datatype variant_type =
  variant_type_null | variant_type_string | variant_type_number
  | variant_type_bool | variant_type_array | variant_type_object

text \<open>The value of each enumerator, from the order of declaration.\<close>

fun enum_value :: "variant_type \<Rightarrow> nat" where
  "enum_value variant_type_null = 0"
| "enum_value variant_type_string = 1"
| "enum_value variant_type_number = 2"
| "enum_value variant_type_bool = 3"
| "enum_value variant_type_array = 4"
| "enum_value variant_type_object = 5"

datatype json_value =
  JNull
  | JString string
  | JNumber double
  | JBool bool
  | JArray "json_value list"
  | JObject "(string \<times> json_value) list"

fun vt :: "json_value \<Rightarrow> variant_type" where
  "vt JNull = variant_type_null"
| "vt (JString s) = variant_type_string"
| "vt (JNumber n) = variant_type_number"
| "vt (JBool b) = variant_type_bool"
| "vt (JArray a) = variant_type_array"
| "vt (JObject o') = variant_type_object"

definition is_null :: "json_value \<Rightarrow> bool" where
  "is_null v = (vt v = variant_type_null)"

definition is_string :: "json_value \<Rightarrow> bool" where
  "is_string v = (vt v = variant_type_string)"

definition is_array :: "json_value \<Rightarrow> bool" where
  "is_array v = (vt v = variant_type_array)"

definition is_object :: "json_value \<Rightarrow> bool" where
  "is_object v = (vt v = variant_type_object)"

text \<open>
  What ends a call other than a return: the exception of the parser with its message,
  a failed \<open>assert\<close> (only in a build without \<open>NDEBUG\<close>; every operation with an
  assertion takes the flag \<open>dbg\<close>, true when assertions are compiled in), and a visitor
  driven outside its protocol so that it reads an empty stack or a dangling pointer.
\<close>

datatype error =
  json_parse_exception string
  | assertion_failed
  | undefined_behaviour

subsection \<open>Doubles by their bits\<close>

datatype fpclass =
  FPCLASS_SNAN | FPCLASS_QNAN | FPCLASS_NINF | FPCLASS_NN | FPCLASS_ND
  | FPCLASS_NZ | FPCLASS_PZ | FPCLASS_PD | FPCLASS_PN | FPCLASS_PINF

definition sign_bit :: "double \<Rightarrow> bool" where
  "sign_bit d = bit d 63"

definition exponent_bits :: "double \<Rightarrow> double" where
  "exponent_bits d = drop_bit 52 d AND 0x7FF"

definition mantissa_bits :: "double \<Rightarrow> double" where
  "mantissa_bits d = d AND 0xFFFFFFFFFFFFF"

text \<open>
  \<open>_fpclass\<close> and \<open>_isnan\<close> belong to the C runtime, not to this repository; they are
  modelled by the IEEE-754 class of the bit pattern, which is what they report.
\<close>

definition fpclass :: "double \<Rightarrow> fpclass" where
  "fpclass d =
     (if exponent_bits d = 0x7FF then
        (if mantissa_bits d = 0 then (if sign_bit d then FPCLASS_NINF else FPCLASS_PINF)
         else if bit d 51 then FPCLASS_QNAN else FPCLASS_SNAN)
      else if exponent_bits d = 0 then
        (if mantissa_bits d = 0 then (if sign_bit d then FPCLASS_NZ else FPCLASS_PZ)
         else (if sign_bit d then FPCLASS_ND else FPCLASS_PD))
      else (if sign_bit d then FPCLASS_NN else FPCLASS_PN))"

definition isnan :: "double \<Rightarrow> bool" where
  "isnan d = (fpclass d = FPCLASS_SNAN \<or> fpclass d = FPCLASS_QNAN)"

text \<open>The magnitude bits read as a signed integer: the order of the doubles that are not NaN.\<close>

definition double_key :: "double \<Rightarrow> int" where
  "double_key d =
     (if sign_bit d then - uint (d AND 0x7FFFFFFFFFFFFFFF) else uint (d AND 0x7FFFFFFFFFFFFFFF))"

text \<open>The built-in \<open>==\<close> and \<open><\<close> on doubles: false when either side is NaN, and the two zeros are equal.\<close>

definition double_eq :: "double \<Rightarrow> double \<Rightarrow> bool" where
  "double_eq a b = (\<not> isnan a \<and> \<not> isnan b \<and> double_key a = double_key b)"

definition double_lt :: "double \<Rightarrow> double \<Rightarrow> bool" where
  "double_lt a b = (\<not> isnan a \<and> \<not> isnan b \<and> double_key a < double_key b)"

text \<open>Unary minus flips the sign bit.\<close>

definition double_neg :: "double \<Rightarrow> double" where
  "double_neg d = d XOR 0x8000000000000000"

subsection \<open>Equality and order\<close>

text \<open>
  \<open>operator==\<close>: different variants are unequal; a vector or a map equals another when the
  sizes agree and \<open>std::equal\<close> finds the elements (for a map: key and value) equal.
\<close>

fun json_eq :: "json_value \<Rightarrow> json_value \<Rightarrow> bool"
  and equal_values :: "json_value list \<Rightarrow> json_value list \<Rightarrow> bool"
  and equal_members :: "(string \<times> json_value) list \<Rightarrow> (string \<times> json_value) list \<Rightarrow> bool"
where
  "json_eq JNull JNull = True"
| "json_eq (JString s) (JString t) = (s = t)"
| "json_eq (JNumber m) (JNumber n) = (isnan m \<and> isnan n \<or> double_eq m n)"
| "json_eq (JBool a) (JBool b) = (a = b)"
| "json_eq (JArray xs) (JArray ys) = (length xs = length ys \<and> equal_values xs ys)"
| "json_eq (JObject ms) (JObject ns) = (length ms = length ns \<and> equal_members ms ns)"
| "json_eq a b = False"
| "equal_values (x # xs) (y # ys) = (json_eq x y \<and> equal_values xs ys)"
| "equal_values xs ys = True"
| "equal_members ((k, x) # ms) ((l, y) # ns) = (k = l \<and> json_eq x y \<and> equal_members ms ns)"
| "equal_members ms ns = True"

text \<open>
  \<open>operator<\<close>: the variant tags decide when they differ; otherwise the payloads are
  compared, vectors and maps by \<open>std::lexicographical_compare\<close>, a map entry by the
  \<open>operator<\<close> of \<open>std::pair\<close>.
\<close>

function (sequential) json_lt :: "json_value \<Rightarrow> json_value \<Rightarrow> bool"
  and less_values :: "json_value list \<Rightarrow> json_value list \<Rightarrow> bool"
  and less_members :: "(string \<times> json_value) list \<Rightarrow> (string \<times> json_value) list \<Rightarrow> bool"
where
  "json_lt JNull JNull = False"
| "json_lt (JString s) (JString t) = (s < t)"
| "json_lt (JNumber m) (JNumber n) = (\<not> isnan n \<and> (isnan m \<or> double_lt m n))"
| "json_lt (JBool a) (JBool b) = (a < b)"
| "json_lt (JArray xs) (JArray ys) = less_values xs ys"
| "json_lt (JObject ms) (JObject ns) = less_members ms ns"
| "json_lt a b =
     (if enum_value (vt a) < enum_value (vt b) then True
      else if enum_value (vt b) < enum_value (vt a) then False
      else False)"
| "less_values (x # xs) (y # ys) =
     (if json_lt x y then True else if json_lt y x then False else less_values xs ys)"
| "less_values [] (y # ys) = True"
| "less_values xs [] = False"
| "less_members ((k, x) # ms) ((l, y) # ns) =
     (if k < l \<or> (\<not> l < k \<and> json_lt x y) then True
      else if l < k \<or> (\<not> k < l \<and> json_lt y x) then False
      else less_members ms ns)"
| "less_members [] (n # ns) = True"
| "less_members ms [] = False"
  by pat_completeness auto
termination
  by (relation "measure (\<lambda>c. case c of
        Inl (a, b) \<Rightarrow> size a + size b + 1
      | Inr (Inl (xs, ys)) \<Rightarrow> size (JArray xs) + size (JArray ys)
      | Inr (Inr (ms, ns)) \<Rightarrow> size (JObject ms) + size (JObject ns))") auto

subsection \<open>The map of an object\<close>

text \<open>\<open>std::map::find\<close>: the value stored under an equivalent key, if there is one.\<close>

fun map_find :: "string \<Rightarrow> (string \<times> json_value) list \<Rightarrow> json_value option" where
  "map_find name [] = None"
| "map_find name ((k, v) # ms) =
     (if name < k then None else if k < name then map_find name ms else Some v)"

text \<open>\<open>std::map::insert\<close>: a new entry at its place in the order, nothing when the key is there.\<close>

fun map_insert :: "string \<Rightarrow> json_value \<Rightarrow> (string \<times> json_value) list \<Rightarrow> (string \<times> json_value) list" where
  "map_insert name v [] = [(name, v)]"
| "map_insert name v ((k, x) # ms) =
     (if name < k then (name, v) # (k, x) # ms
      else if k < name then (k, x) # map_insert name v ms
      else (k, x) # ms)"

text \<open>\<open>std::map::erase(key)\<close>: the number of entries removed, and what is left.\<close>

fun map_erase :: "string \<Rightarrow> (string \<times> json_value) list \<Rightarrow> nat \<times> (string \<times> json_value) list" where
  "map_erase name [] = (0, [])"
| "map_erase name ((k, x) # ms) =
     (if name < k then (0, (k, x) # ms)
      else if k < name then (case map_erase name ms of (n, ms') \<Rightarrow> (n, (k, x) # ms'))
      else (1, ms))"

text \<open>Writing through a reference to the value stored under a key.\<close>

fun map_assign :: "string \<Rightarrow> json_value \<Rightarrow> (string \<times> json_value) list \<Rightarrow> (string \<times> json_value) list" where
  "map_assign name v [] = []"
| "map_assign name v ((k, x) # ms) =
     (if name < k then (k, x) # ms
      else if k < name then (k, x) # map_assign name v ms
      else (k, v) # ms)"

text \<open>
  The representation invariant of a value: the entries of every map in it are strictly
  ascending by key. Every constructor and every operation below keeps it.
\<close>

fun wf_value :: "json_value \<Rightarrow> bool" where
  "wf_value (JArray xs) = list_all wf_value xs"
| "wf_value (JObject ms) = (sorted_wrt (<) (map fst ms) \<and> list_all (\<lambda>m. wf_value (snd m)) ms)"
| "wf_value v = True"

subsection \<open>Children\<close>

text \<open>
  A reference to a child is the selector of its slot in the receiver: an operation that
  returns a reference returns the receiver as it has become and the selector.
\<close>

datatype selector = Idx nat | Key string

fun slot :: "json_value \<Rightarrow> selector \<Rightarrow> json_value option" where
  "slot (JArray xs) (Idx i) = (if i < length xs then Some (xs ! i) else None)"
| "slot (JObject ms) (Key name) = map_find name ms"
| "slot v s = None"

text \<open>\<open>std::vector::resize\<close> with value-initialised (null) new elements.\<close>

definition resize :: "nat \<Rightarrow> json_value list \<Rightarrow> json_value list" where
  "resize n xs = take n xs @ replicate (n - length xs) JNull"

definition get_child :: "bool \<Rightarrow> json_value \<Rightarrow> nat \<Rightarrow> error + json_value" where
  "get_child dbg v i =
     (if dbg \<and> \<not> (is_null v \<or> is_array v) then Inl assertion_failed
      else case v of
        JArray xs \<Rightarrow> (if i \<ge> length xs then Inr JNull else Inr (xs ! i))
      | _ \<Rightarrow> Inr JNull)"

definition put_child :: "bool \<Rightarrow> json_value \<Rightarrow> nat \<Rightarrow> error + json_value \<times> selector" where
  "put_child dbg v i =
     (if dbg \<and> \<not> (is_null v \<or> is_array v) then Inl assertion_failed
      else let xs = (case v of JArray xs \<Rightarrow> xs | _ \<Rightarrow> []);
               xs' = (if i \<ge> length xs then resize (i + 1) xs else xs)
           in Inr (JArray xs', Idx i))"

definition get_length :: "json_value \<Rightarrow> nat" where
  "get_length v = (case v of JArray xs \<Rightarrow> length xs | _ \<Rightarrow> 0)"

definition append_child :: "bool \<Rightarrow> json_value \<Rightarrow> error + json_value \<times> selector" where
  "append_child dbg v = put_child dbg v (get_length v)"

definition set_length :: "bool \<Rightarrow> json_value \<Rightarrow> nat \<Rightarrow> error + json_value" where
  "set_length dbg v n =
     (if dbg \<and> \<not> (is_null v \<or> is_array v) then Inl assertion_failed
      else let xs = (case v of JArray xs \<Rightarrow> xs | _ \<Rightarrow> [])
           in Inr (JArray (resize n xs)))"

definition get_child_named :: "bool \<Rightarrow> json_value \<Rightarrow> string \<Rightarrow> error + json_value" where
  "get_child_named dbg v name =
     (if dbg \<and> \<not> (is_null v \<or> is_object v) then Inl assertion_failed
      else case v of
        JObject ms \<Rightarrow> (case map_find name ms of None \<Rightarrow> Inr JNull | Some c \<Rightarrow> Inr c)
      | _ \<Rightarrow> Inr JNull)"

definition put_child_named :: "bool \<Rightarrow> json_value \<Rightarrow> string \<Rightarrow> error + json_value \<times> selector" where
  "put_child_named dbg v name =
     (if dbg \<and> \<not> (is_null v \<or> is_object v) then Inl assertion_failed
      else let ms = (case v of JObject ms \<Rightarrow> ms | _ \<Rightarrow> [])
           in Inr (JObject (map_insert name JNull ms), Key name))"

definition has_child :: "json_value \<Rightarrow> string \<Rightarrow> bool" where
  "has_child v name = (case v of JObject ms \<Rightarrow> map_find name ms \<noteq> None | _ \<Rightarrow> False)"

definition erase_child :: "bool \<Rightarrow> json_value \<Rightarrow> string \<Rightarrow> error + bool \<times> json_value" where
  "erase_child dbg v name =
     (if dbg \<and> \<not> (is_null v \<or> is_object v) then Inl assertion_failed
      else case v of
        JObject ms \<Rightarrow> (case map_erase name ms of (n, ms') \<Rightarrow> Inr (n \<noteq> 0, JObject ms'))
      | _ \<Rightarrow> Inr (False, v))"

definition get_string :: "bool \<Rightarrow> json_value \<Rightarrow> error + string" where
  "get_string dbg v =
     (if dbg \<and> \<not> is_string v then Inl assertion_failed
      else case v of JString s \<Rightarrow> Inr s | _ \<Rightarrow> Inr [])"

text \<open>
  Writing through a reference: the receiver with the slot overwritten. A selector that
  names no slot of the receiver is a dangling reference.
\<close>

fun assign :: "json_value \<Rightarrow> selector \<Rightarrow> json_value \<Rightarrow> json_value option" where
  "assign (JArray xs) (Idx i) x = (if i < length xs then Some (JArray (xs[i := x])) else None)"
| "assign (JObject ms) (Key name) x =
     (if map_find name ms = None then None else Some (JObject (map_assign name x ms)))"
| "assign v s x = None"

text \<open>
  The ranking of the variants as the specification words it (Null, String, Number, Bool,
  Array, Object), to be compared with the order of the enumerators that the code uses.
\<close>

fun spec_rank :: "json_value \<Rightarrow> nat" where
  "spec_rank JNull = 0"
| "spec_rank (JString s) = 1"
| "spec_rank (JNumber n) = 2"
| "spec_rank (JBool b) = 3"
| "spec_rank (JArray xs) = 4"
| "spec_rank (JObject ms) = 5"

section \<open>The parser\<close>

subsection \<open>Visitor calls\<close>

text \<open>
  The parser and \<open>json_value::accept\<close> are templates over a visitor, whose ten operations
  return nothing; neither ever reads the visitor. So a run of either is the list of the
  calls it makes, and a visitor is what consumes such a list, call by call.
\<close>

datatype event =
  null_value
  | string_value string
  | number_value double
  | bool_value bool
  | begin_array
  | end_array
  | begin_object
  | end_object
  | begin_key
  | end_key
  | begin_value
  | end_value

subsection \<open>Floating-point arithmetic\<close>

text \<open>
  The rounded operations of the host that the parser and the writers use, as parameters:
  \<open>+\<close> and \<open>*\<close> on doubles, the conversion of an \<open>int\<close> to a double, \<open>pow\<close>, and
  \<open>snprintf\<close> with the format \<open>%.16g\<close> in the C locale.
\<close>

record fpu =
  fp_add :: "double \<Rightarrow> double \<Rightarrow> double"
  fp_mul :: "double \<Rightarrow> double \<Rightarrow> double"
  fp_of_int :: "int \<Rightarrow> double"
  fp_pow :: "double \<Rightarrow> double \<Rightarrow> double"
  fp_format_16g :: "double \<Rightarrow> string"

text \<open>The double literals \<open>0\<close>, \<open>0.1\<close> and \<open>10.0\<close> of the source, by their bits.\<close>

definition double_zero :: double where
  "double_zero = 0"

definition double_tenth :: double where
  "double_tenth = 0x3FB999999999999A"

definition double_ten :: double where
  "double_ten = 0x4024000000000000"

text \<open>
  A unit whose operations all return zero and whose format is empty, for the examples
  in which no normal number is written and no digit other than a single 0 is read.
\<close>

definition no_fpu :: fpu where
  "no_fpu = \<lparr>fp_add = (\<lambda>a b. 0), fp_mul = (\<lambda>a b. 0), fp_of_int = (\<lambda>i. 0),
             fp_pow = (\<lambda>a b. 0), fp_format_16g = (\<lambda>d. [])\<rparr>"

subsection \<open>The iterator\<close>

text \<open>
  The iterator is a \<open>const char*\<close> into the buffer of \<open>c_str()\<close>: the characters before the
  first NUL, then the NUL. It is modelled by the characters still ahead of it; \<open>*iter\<close> is
  the first of them, or NUL at the terminator. The parser steps over the terminator only
  on its way to an exception, so \<open>++iter\<close> there may stay where it is.
\<close>

definition c_str :: "string \<Rightarrow> string" where
  "c_str str = takeWhile (\<lambda>c. c \<noteq> CHR 0x00) str"

definition cur :: "string \<Rightarrow> char" where
  "cur it = (case it of [] \<Rightarrow> CHR 0x00 | c # cs \<Rightarrow> c)"

definition adv :: "string \<Rightarrow> string" where
  "adv it = (case it of [] \<Rightarrow> [] | c # cs \<Rightarrow> cs)"

text \<open>
  The outcome of a parsing function: the visitor calls made, and either the exception
  that ended it or the iterator where it stopped.
\<close>

type_synonym outcome = "event list \<times> (error + string)"

definition throw :: "string \<Rightarrow> error + 'a" where
  "throw msg = Inl (json_parse_exception msg)"

fun skip_whitespace :: "string \<Rightarrow> string" where
  "skip_whitespace [] = []"
| "skip_whitespace (c # cs) =
     (if c = CHR '' '' \<or> c = CHR 0x0A \<or> c = CHR 0x0D \<or> c = CHR 0x09
      then skip_whitespace cs else c # cs)"

subsection \<open>Literals\<close>

definition parse_null :: "bool \<Rightarrow> string \<Rightarrow> outcome" where
  "parse_null dbg it =
     (if dbg \<and> cur it \<noteq> CHR ''n'' then ([], Inl assertion_failed)
      else let i1 = adv it in
        if cur i1 = CHR ''u'' \<and> cur (adv i1) = CHR ''l'' \<and> cur (adv (adv i1)) = CHR ''l''
        then ([null_value], Inr (adv (adv (adv i1))))
        else ([], throw ''expected value''))"

definition parse_true :: "bool \<Rightarrow> string \<Rightarrow> outcome" where
  "parse_true dbg it =
     (if dbg \<and> cur it \<noteq> CHR ''t'' then ([], Inl assertion_failed)
      else let i1 = adv it in
        if cur i1 = CHR ''r'' \<and> cur (adv i1) = CHR ''u'' \<and> cur (adv (adv i1)) = CHR ''e''
        then ([bool_value True], Inr (adv (adv (adv i1))))
        else ([], throw ''expected value''))"

definition parse_false :: "bool \<Rightarrow> string \<Rightarrow> outcome" where
  "parse_false dbg it =
     (if dbg \<and> cur it \<noteq> CHR ''f'' then ([], Inl assertion_failed)
      else let i1 = adv it in
        if cur i1 = CHR ''a'' \<and> cur (adv i1) = CHR ''l'' \<and> cur (adv (adv i1)) = CHR ''s''
           \<and> cur (adv (adv (adv i1))) = CHR ''e''
        then ([bool_value False], Inr (adv (adv (adv (adv i1)))))
        else ([], throw ''expected value''))"

subsection \<open>Strings\<close>

text \<open>
  The code point is an \<open>unsigned\<close>, 32 bits. The loop of \<open>parse_fourhex\<close> runs four times;
  \<open>fourhex_loop n\<close> is what its last \<open>n\<close> rounds do.
\<close>

fun fourhex_loop :: "nat \<Rightarrow> 32 word \<Rightarrow> string \<Rightarrow> error + 32 word \<times> string" where
  "fourhex_loop 0 codepoint it = Inr (codepoint, it)"
| "fourhex_loop (Suc n) codepoint it =
     (let cp = push_bit 4 codepoint; c = cur it in
      if CHR ''0'' \<le> c \<and> c \<le> CHR ''9''
        then fourhex_loop n (cp + word_of_int (of_char c - of_char CHR ''0'')) (adv it)
      else if CHR ''A'' \<le> c \<and> c \<le> CHR ''F''
        then fourhex_loop n (cp + word_of_int (10 + of_char c - of_char CHR ''A'')) (adv it)
      else if CHR ''a'' \<le> c \<and> c \<le> CHR ''f''
        then fourhex_loop n (cp + word_of_int (10 + of_char c - of_char CHR ''a'')) (adv it)
      else throw ''expected 4hexdig'')"

definition parse_fourhex :: "string \<Rightarrow> error + 32 word \<times> string" where
  "parse_fourhex it = fourhex_loop 4 0 it"

text \<open>\<open>static_cast<unsigned char>\<close> of an \<open>unsigned\<close>: its low eight bits.\<close>

definition to_uchar :: "32 word \<Rightarrow> char" where
  "to_uchar w = char_of (unat w)"

text \<open>The bytes appended to the stream for a code point (the last part of \<open>case 'u'\<close>).\<close>

definition utf8_bytes :: "32 word \<Rightarrow> string" where
  "utf8_bytes codepoint =
     (if codepoint < 0x80 then [to_uchar codepoint]
      else if codepoint < 0x800 then
        [to_uchar ((drop_bit 6 codepoint AND 0x1f) OR 0xc0),
         to_uchar ((codepoint AND 0x3f) OR 0x80)]
      else if codepoint < 0x10000 then
        [to_uchar ((drop_bit 12 codepoint AND 0x0f) OR 0xe0),
         to_uchar ((drop_bit 6 codepoint AND 0x3f) OR 0x80),
         to_uchar ((codepoint AND 0x3f) OR 0x80)]
      else
        [to_uchar ((drop_bit 18 codepoint AND 0x07) OR 0xf0),
         to_uchar ((drop_bit 12 codepoint AND 0x3f) OR 0x80),
         to_uchar ((drop_bit 6 codepoint AND 0x3f) OR 0x80),
         to_uchar ((codepoint AND 0x3f) OR 0x80)])"

text \<open>
  \<open>case 'u'\<close> of \<open>parse_string\<close>, entered with the iterator behind the \<open>u\<close>: the bytes to
  append and the iterator behind the escape (or the pair of escapes).
\<close>

definition parse_unicode_escape :: "string \<Rightarrow> error + string \<times> string" where
  "parse_unicode_escape it =
     (case parse_fourhex it of
        Inl e \<Rightarrow> Inl e
      | Inr (codepoint, i1) \<Rightarrow>
          if codepoint \<ge> 0xd800 \<and> codepoint \<le> 0xdbff then
            (if cur i1 \<noteq> CHR 0x5C then throw ''expected trailing surrogate''
             else if cur (adv i1) \<noteq> CHR ''u'' then throw ''expected trailing surrogate''
             else case parse_fourhex (adv (adv i1)) of
                Inl e \<Rightarrow> Inl e
              | Inr (codepoint2, i2) \<Rightarrow>
                  if codepoint2 < 0xdc00 \<or> codepoint2 > 0xdfff
                  then throw ''expected trailing surrogate''
                  else Inr (utf8_bytes
                         ((push_bit 10 (codepoint - 0xd800) OR (codepoint2 - 0xdc00)) + 0x10000),
                        i2))
          else if codepoint \<ge> 0xdc00 \<and> codepoint \<le> 0xdfff
            then throw ''unexpected trailing surrogate.''
          else Inr (utf8_bytes codepoint, i1))"

text \<open>\<open>json_value::need_escaping\<close>: the bytes 0x00 to 0x1f, 0x7f, backslash and quote.\<close>

definition need_escaping :: "char \<Rightarrow> bool" where
  "need_escaping c =
     ((of_char c :: nat) < 0x20 \<or> c = CHR 0x7F \<or> c = CHR 0x5C \<or> c = CHR 0x22)"

lemma fourhex_loop_length:
  "fourhex_loop n cp it = Inr (cp', it') \<Longrightarrow> length it' \<le> length it"
proof (induction n arbitrary: cp it)
  case 0
  then show ?case by simp
next
  case (Suc n)
  have a: "length (adv it) \<le> length it"
    by (simp add: adv_def split: list.splits)
  from Suc.prems obtain cp1 where "fourhex_loop n cp1 (adv it) = Inr (cp', it')"
    by (auto simp: Let_def throw_def split: if_splits)
  from Suc.IH [OF this] a show ?case by simp
qed

lemma parse_unicode_escape_length:
  "parse_unicode_escape it = Inr (bs, it') \<Longrightarrow> length it' \<le> length it"
proof -
  assume p: "parse_unicode_escape it = Inr (bs, it')"
  have a: "\<And>i. length (adv i) \<le> length i"
    by (simp add: adv_def split: list.splits)
  from p obtain cp i1 where f1: "parse_fourhex it = Inr (cp, i1)"
    by (auto simp: parse_unicode_escape_def split: sum.splits)
  then have l1: "length i1 \<le> length it"
    by (simp add: parse_fourhex_def fourhex_loop_length)
  show ?thesis
  proof (cases "it' = i1")
    case True
    with l1 show ?thesis by simp
  next
    case False
    with p f1 obtain cp2 where "parse_fourhex (adv (adv i1)) = Inr (cp2, it')"
      by (auto simp: parse_unicode_escape_def throw_def split: sum.splits if_splits)
    then have "length it' \<le> length (adv (adv i1))"
      by (simp add: parse_fourhex_def fourhex_loop_length)
    with a [of i1] a [of "adv i1"] l1 show ?thesis by simp
  qed
qed

text \<open>
  The loop of \<open>parse_string\<close>, with the contents of the string stream so far; behind the
  closing quote it returns the string handed to \<open>string_value\<close>.
\<close>

function parse_string_loop :: "string \<Rightarrow> string \<Rightarrow> error + string \<times> string" where
  "parse_string_loop ss it =
     (let c = cur it; i1 = adv it in
      if c = CHR 0x5C then
        (let e = cur i1; i2 = adv i1 in
         if e = CHR 0x22 then parse_string_loop (ss @ [CHR 0x22]) i2
         else if e = CHR ''/'' then parse_string_loop (ss @ [CHR ''/'']) i2
         else if e = CHR 0x5C then parse_string_loop (ss @ [CHR 0x5C]) i2
         else if e = CHR ''b'' then parse_string_loop (ss @ [CHR 0x08]) i2
         else if e = CHR ''f'' then parse_string_loop (ss @ [CHR 0x0C]) i2
         else if e = CHR ''n'' then parse_string_loop (ss @ [CHR 0x0A]) i2
         else if e = CHR ''r'' then parse_string_loop (ss @ [CHR 0x0D]) i2
         else if e = CHR ''t'' then parse_string_loop (ss @ [CHR 0x09]) i2
         else if e = CHR ''u'' then
           (case parse_unicode_escape i2 of
              Inl err \<Rightarrow> Inl err
            | Inr (bytes, i3) \<Rightarrow> parse_string_loop (ss @ bytes) i3)
         else throw ''expected escape'')
      else if c = CHR 0x22 then Inr (ss, i1)
      else if c = CHR 0x00 then throw ''expected char or quotation-mark''
      else if need_escaping c then throw ''expected char''
      else parse_string_loop (ss @ [c]) i1)"
  by pat_completeness auto
termination
proof (relation "measure (\<lambda>(ss, it). length it)")
  show "wf (measure (\<lambda>(ss, it). length it))" by simp
next
  fix ss it c i1 e i2 x bytes i3
  assume "c = cur it" "i1 = adv it" "c = CHR 0x5C" "e = cur i1" "i2 = adv i1"
    "parse_unicode_escape i2 = Inr x" "(bytes, i3) = x"
  then have "length i3 \<le> length i2" "it \<noteq> []" "i1 = tl it" "length i2 \<le> length i1"
    using parse_unicode_escape_length [of i2 bytes i3]
    by (auto simp: cur_def adv_def split: list.splits)
  then show "((ss @ bytes, i3), ss, it) \<in> measure (\<lambda>(ss, it). length it)"
    by (cases it) auto
qed (auto simp: cur_def adv_def split: list.splits)

definition parse_string :: "bool \<Rightarrow> string \<Rightarrow> outcome" where
  "parse_string dbg it =
     (if dbg \<and> cur it \<noteq> CHR 0x22 then ([], Inl assertion_failed)
      else case parse_string_loop [] (adv it) of
        Inl e \<Rightarrow> ([], Inl e)
      | Inr (str, it') \<Rightarrow> ([string_value str], Inr it'))"

declare parse_string_loop.simps [simp del]

subsection \<open>Numbers\<close>

definition is_digit :: "char \<Rightarrow> bool" where
  "is_digit c = (CHR ''0'' \<le> c \<and> c \<le> CHR ''9'')"

text \<open>\<open>*iter - '0'\<close>, an \<open>int\<close>.\<close>

definition digit_of :: "char \<Rightarrow> int" where
  "digit_of c = of_char c - of_char CHR ''0''"

text \<open>
  \<open>parse_int\<close> is a template over the type of the accumulator. For the integer part the
  accumulator is a double, for the exponent an \<open>int\<close> (32 bits; on overflow, which the
  language leaves undefined, the model wraps around).
\<close>

fun parse_int_double :: "fpu \<Rightarrow> double \<Rightarrow> string \<Rightarrow> double \<times> string" where
  "parse_int_double F integer [] = (integer, [])"
| "parse_int_double F integer (c # cs) =
     (if is_digit c
      then parse_int_double F
             (fp_add F (fp_mul F integer (fp_of_int F 10)) (fp_of_int F (digit_of c))) cs
      else (integer, c # cs))"

fun parse_int_int :: "32 word \<Rightarrow> string \<Rightarrow> 32 word \<times> string" where
  "parse_int_int integer [] = (integer, [])"
| "parse_int_int integer (c # cs) =
     (if is_digit c
      then parse_int_int (integer * 10 + word_of_int (digit_of c)) cs
      else (integer, c # cs))"

fun fraction_loop :: "fpu \<Rightarrow> double \<Rightarrow> double \<Rightarrow> string \<Rightarrow> double \<times> string" where
  "fraction_loop F fraction factor [] = (fraction, [])"
| "fraction_loop F fraction factor (c # cs) =
     (if is_digit c
      then fraction_loop F
             (fp_add F fraction (fp_mul F (fp_of_int F (digit_of c)) factor))
             (fp_mul F factor double_tenth) cs
      else (fraction, c # cs))"

definition parse_fraction :: "fpu \<Rightarrow> string \<Rightarrow> double \<times> string" where
  "parse_fraction F it = fraction_loop F double_zero double_tenth it"

text \<open>The three parts of \<open>parse_number\<close> behind the sign, each from the number so far.\<close>

definition number_integer :: "fpu \<Rightarrow> string \<Rightarrow> error + double \<times> string" where
  "number_integer F it =
     (if cur it = CHR ''0'' then Inr (double_zero, adv it)
      else if CHR ''1'' \<le> cur it \<and> cur it \<le> CHR ''9'' then Inr (parse_int_double F double_zero it)
      else throw ''expected integer'')"

definition number_fraction :: "fpu \<Rightarrow> double \<Rightarrow> string \<Rightarrow> error + double \<times> string" where
  "number_fraction F number it =
     (if cur it = CHR ''.'' then
        (let i1 = adv it in
         if \<not> is_digit (cur i1) then throw ''expected fraction''
         else case parse_fraction F i1 of (fraction, i2) \<Rightarrow> Inr (fp_add F number fraction, i2))
      else Inr (number, it))"

definition number_exponent :: "fpu \<Rightarrow> double \<Rightarrow> string \<Rightarrow> error + double \<times> string" where
  "number_exponent F number it =
     (if cur it = CHR ''e'' \<or> cur it = CHR ''E'' then
        (let i1 = adv it;
             negative_exponent = (cur i1 = CHR ''-'');
             i2 = (if cur i1 = CHR ''-'' \<or> cur i1 = CHR ''+'' then adv i1 else i1) in
         if \<not> is_digit (cur i2) then throw ''expected exponent''
         else case parse_int_int 0 i2 of (exponent, i3) \<Rightarrow>
           Inr (fp_mul F number
                  (fp_pow F double_ten
                     (fp_of_int F (sint (if negative_exponent then - exponent else exponent)))),
                i3))
      else Inr (number, it))"

definition parse_number :: "fpu \<Rightarrow> string \<Rightarrow> outcome" where
  "parse_number F it =
     (let minus = (cur it = CHR ''-'');
          i0 = (if minus then adv it else it) in
      case number_integer F i0 of
        Inl e \<Rightarrow> ([], Inl e)
      | Inr (n1, i1) \<Rightarrow>
          (case number_fraction F n1 i1 of
             Inl e \<Rightarrow> ([], Inl e)
           | Inr (n2, i2) \<Rightarrow>
               (case number_exponent F n2 i2 of
                  Inl e \<Rightarrow> ([], Inl e)
                | Inr (n3, i3) \<Rightarrow>
                    ([number_value (if minus then double_neg n3 else n3)], Inr i3))))"

subsection \<open>Values, objects and arrays\<close>

text \<open>
  The mutual recursion of \<open>parse_value\<close>, \<open>parse_object\<close> and \<open>parse_array\<close>, and the two
  \<open>for (;;)\<close> loops, take fuel: every call of \<open>parse_value\<close> and every round of a loop
  uses one unit, and \<open>None\<close> is a run that has none left. That twice the length of the
  input is always enough is shown with the properties.
\<close>

function (sequential) parse_value :: "fpu \<Rightarrow> bool \<Rightarrow> nat \<Rightarrow> string \<Rightarrow> outcome option"
  and parse_object :: "fpu \<Rightarrow> bool \<Rightarrow> nat \<Rightarrow> string \<Rightarrow> outcome option"
  and object_loop :: "fpu \<Rightarrow> bool \<Rightarrow> nat \<Rightarrow> string \<Rightarrow> outcome option"
  and parse_array :: "fpu \<Rightarrow> bool \<Rightarrow> nat \<Rightarrow> string \<Rightarrow> outcome option"
  and array_loop :: "fpu \<Rightarrow> bool \<Rightarrow> nat \<Rightarrow> string \<Rightarrow> outcome option"
where
  "parse_value F dbg 0 it = None"
| "parse_value F dbg (Suc n) it =
     (let c = cur it in
      if c = CHR ''n'' then Some (parse_null dbg it)
      else if c = CHR ''t'' then Some (parse_true dbg it)
      else if c = CHR ''f'' then Some (parse_false dbg it)
      else if c = CHR 0x22 then Some (parse_string dbg it)
      else if c = CHR ''{'' then parse_object F dbg n it
      else if c = CHR ''['' then parse_array F dbg n it
      else Some (parse_number F it))"
| "parse_object F dbg n it =
     (if dbg \<and> cur it \<noteq> CHR ''{'' then Some ([], Inl assertion_failed)
      else let i1 = skip_whitespace (adv it) in
        if cur i1 = CHR ''}'' then Some ([begin_object, end_object], Inr (adv i1))
        else map_option (\<lambda>(evs, r). (begin_object # evs, r)) (object_loop F dbg n i1))"
| "object_loop F dbg 0 it = None"
| "object_loop F dbg (Suc n) it =
     (if cur it \<noteq> CHR 0x22 then Some ([], throw ''expected string'')
      else case parse_string dbg it of
        (kevs, Inl e) \<Rightarrow> Some (begin_key # kevs, Inl e)
      | (kevs, Inr i1) \<Rightarrow>
          let i2 = skip_whitespace i1 in
          if cur i2 \<noteq> CHR '':''
          then Some (begin_key # kevs @ [end_key], throw ''expected name-separator'')
          else
            (case parse_value F dbg n (skip_whitespace (adv i2)) of
               None \<Rightarrow> None
             | Some (vevs, Inl e) \<Rightarrow>
                 Some (begin_key # kevs @ [end_key, begin_value] @ vevs, Inl e)
             | Some (vevs, Inr i3) \<Rightarrow>
                 let i4 = skip_whitespace i3;
                     calls = begin_key # kevs @ [end_key, begin_value] @ vevs @ [end_value] in
                 if cur i4 = CHR '','' then
                   map_option (\<lambda>(evs, r). (calls @ evs, r))
                     (object_loop F dbg n (skip_whitespace (adv i4)))
                 else if cur i4 = CHR ''}'' then Some (calls @ [end_object], Inr (adv i4))
                 else Some (calls, throw ''expected value-separator or end-object'')))"
| "parse_array F dbg n it =
     (if dbg \<and> cur it \<noteq> CHR ''['' then Some ([], Inl assertion_failed)
      else let i1 = skip_whitespace (adv it) in
        if cur i1 = CHR '']'' then Some ([begin_array, end_array], Inr (adv i1))
        else map_option (\<lambda>(evs, r). (begin_array # evs, r)) (array_loop F dbg n i1))"
| "array_loop F dbg 0 it = None"
| "array_loop F dbg (Suc n) it =
     (case parse_value F dbg n it of
        None \<Rightarrow> None
      | Some (vevs, Inl e) \<Rightarrow> Some (begin_value # vevs, Inl e)
      | Some (vevs, Inr i1) \<Rightarrow>
          let i2 = skip_whitespace i1;
              calls = begin_value # vevs @ [end_value] in
          if cur i2 = CHR '','' then
            map_option (\<lambda>(evs, r). (calls @ evs, r))
              (array_loop F dbg n (skip_whitespace (adv i2)))
          else if cur i2 = CHR '']'' then Some (calls @ [end_array], Inr (adv i2))
          else Some (calls, throw ''expected value-separator or end-array''))"

  by pat_completeness auto
termination
  by (relation "measure (\<lambda>c. case c of
        Inl (Inl (F, dbg, n, it)) \<Rightarrow> 2 * n
      | Inl (Inr (F, dbg, n, it)) \<Rightarrow> 2 * n + 1
      | Inr (Inl (F, dbg, n, it)) \<Rightarrow> 2 * n
      | Inr (Inr (Inl (F, dbg, n, it))) \<Rightarrow> 2 * n + 1
      | Inr (Inr (Inr (F, dbg, n, it))) \<Rightarrow> 2 * n)") auto

declare parse_value.simps(2) [simp del] parse_object.simps [simp del]
  object_loop.simps(2) [simp del] parse_array.simps [simp del] array_loop.simps(2) [simp del]

text \<open>\<open>parse(iter, visitor)\<close>: the root, then only white space up to the terminator.\<close>

definition parse_document :: "fpu \<Rightarrow> bool \<Rightarrow> nat \<Rightarrow> string \<Rightarrow> (event list \<times> (error + unit)) option" where
  "parse_document F dbg n it =
     (let i1 = skip_whitespace it in
      case (if cur i1 = CHR ''{'' then parse_object F dbg n i1
            else if cur i1 = CHR ''['' then parse_array F dbg n i1
            else Some ([], throw ''expected object or array'')) of
        None \<Rightarrow> None
      | Some (evs, Inl e) \<Rightarrow> Some (evs, Inl e)
      | Some (evs, Inr i2) \<Rightarrow>
          if cur (skip_whitespace i2) \<noteq> CHR 0x00 then Some (evs, throw ''expected end'')
          else Some (evs, Inr ()))"

section \<open>The builder\<close>

text \<open>
  The builder keeps a stack of pointers to values: to the root it was made for, to its
  own \<open>keyvalue\<close>, or to a child somewhere below one of the two. A pointer is the value
  it starts from and the selectors that lead from there to the slot.
\<close>

datatype target = to_root | to_keyvalue

type_synonym pointer = "target \<times> selector list"

record json_builder =
  b_root :: json_value
  b_keyvalue :: json_value
  b_key :: string
  b_stack :: "pointer list"

fun get_at :: "json_value \<Rightarrow> selector list \<Rightarrow> json_value option" where
  "get_at v [] = Some v"
| "get_at v (sel # p) = (case slot v sel of None \<Rightarrow> None | Some c \<Rightarrow> get_at c p)"

fun put_at :: "json_value \<Rightarrow> selector list \<Rightarrow> json_value \<Rightarrow> json_value option" where
  "put_at v [] x = Some x"
| "put_at v (sel # p) x =
     (case slot v sel of
        None \<Rightarrow> None
      | Some c \<Rightarrow> (case put_at c p x of None \<Rightarrow> None | Some c' \<Rightarrow> assign v sel c'))"

definition deref :: "json_builder \<Rightarrow> pointer \<Rightarrow> json_value option" where
  "deref b ptr =
     (case fst ptr of
        to_root \<Rightarrow> get_at (b_root b) (snd ptr)
      | to_keyvalue \<Rightarrow> get_at (b_keyvalue b) (snd ptr))"

definition store :: "json_builder \<Rightarrow> pointer \<Rightarrow> json_value \<Rightarrow> json_builder option" where
  "store b ptr x =
     (case fst ptr of
        to_root \<Rightarrow> map_option (\<lambda>r. b\<lparr>b_root := r\<rparr>) (put_at (b_root b) (snd ptr) x)
      | to_keyvalue \<Rightarrow> map_option (\<lambda>k. b\<lparr>b_keyvalue := k\<rparr>) (put_at (b_keyvalue b) (snd ptr) x))"

text \<open>The constructor: the stack holds the pointer to the root.\<close>

definition new_builder :: "json_value \<Rightarrow> json_builder" where
  "new_builder r = \<lparr>b_root = r, b_keyvalue = JNull, b_key = [], b_stack = [(to_root, [])]\<rparr>"

text \<open>\<open>*s.top() = x\<close>.\<close>

definition set_top :: "json_builder \<Rightarrow> json_value \<Rightarrow> error + json_builder" where
  "set_top b x =
     (case b_stack b of
        [] \<Rightarrow> Inl undefined_behaviour
      | ptr # rest \<Rightarrow>
          (case store b ptr x of None \<Rightarrow> Inl undefined_behaviour | Some b' \<Rightarrow> Inr b'))"

fun builder_call :: "bool \<Rightarrow> event \<Rightarrow> json_builder \<Rightarrow> error + json_builder" where
  "builder_call dbg null_value b = set_top b JNull"
| "builder_call dbg (string_value val) b = set_top b (JString val)"
| "builder_call dbg (number_value val) b = set_top b (JNumber val)"
| "builder_call dbg (bool_value val) b = set_top b (JBool val)"
| "builder_call dbg begin_array b = set_top b (JArray [])"
| "builder_call dbg end_array b = Inr b"
| "builder_call dbg begin_object b = set_top b (JObject [])"
| "builder_call dbg end_object b = Inr b"
| "builder_call dbg begin_key b = Inr (b\<lparr>b_stack := (to_keyvalue, []) # b_stack b\<rparr>)"
| "builder_call dbg end_key b =
     (case b_stack b of
        [] \<Rightarrow> Inl undefined_behaviour
      | ptr # rest \<Rightarrow>
          (case deref b ptr of
             None \<Rightarrow> Inl undefined_behaviour
           | Some v \<Rightarrow>
               (case get_string dbg v of
                  Inl e \<Rightarrow> Inl e
                | Inr str \<Rightarrow> Inr (b\<lparr>b_key := str, b_stack := rest\<rparr>))))"
| "builder_call dbg begin_value b =
     (case b_stack b of
        [] \<Rightarrow> Inl undefined_behaviour
      | ptr # rest \<Rightarrow>
          (case deref b ptr of
             None \<Rightarrow> Inl undefined_behaviour
           | Some v \<Rightarrow>
               (case (if is_object v then put_child_named dbg v (b_key b)
                      else append_child dbg v) of
                  Inl e \<Rightarrow> Inl e
                | Inr (v', sel) \<Rightarrow>
                    (case store b ptr v' of
                       None \<Rightarrow> Inl undefined_behaviour
                     | Some b' \<Rightarrow>
                         Inr (b'\<lparr>b_stack := (fst ptr, snd ptr @ [sel]) # b_stack b'\<rparr>)))))"
| "builder_call dbg end_value b =
     (case b_stack b of
        [] \<Rightarrow> Inl undefined_behaviour
      | ptr # rest \<Rightarrow> Inr (b\<lparr>b_stack := rest\<rparr>))"

text \<open>A visitor consuming the calls of a run, up to the first that fails.\<close>

fun drive :: "bool \<Rightarrow> event list \<Rightarrow> json_builder \<Rightarrow> error + json_builder" where
  "drive dbg [] b = Inr b"
| "drive dbg (e # es) b =
     (case builder_call dbg e b of Inl err \<Rightarrow> Inl err | Inr b' \<Rightarrow> drive dbg es b')"

text \<open>
  \<open>json_value parse(const std::string&)\<close>: the builder on a null root consumes the calls
  of the parser. What ends the run first decides: a failure of the builder at one of the
  calls, else the exception of the parser, else the root is returned.
\<close>

definition parse :: "fpu \<Rightarrow> bool \<Rightarrow> string \<Rightarrow> (error + json_value) option" where
  "parse F dbg str =
     (let it = c_str str in
      case parse_document F dbg (2 * length it + 2) it of
        None \<Rightarrow> None
      | Some (evs, r) \<Rightarrow>
          Some (case drive dbg evs (new_builder JNull) of
                  Inl e \<Rightarrow> Inl e
                | Inr b \<Rightarrow> (case r of Inl e \<Rightarrow> Inl e | Inr u \<Rightarrow> Inr (b_root b))))"

section \<open>The writers\<close>

text \<open>\<open>json_value::accept\<close>: the calls made on the visitor.\<close>

fun accept :: "json_value \<Rightarrow> event list"
  and accept_values :: "json_value list \<Rightarrow> event list"
  and accept_members :: "(string \<times> json_value) list \<Rightarrow> event list"
where
  "accept JNull = [null_value]"
| "accept (JString val) = [string_value val]"
| "accept (JNumber val) = [number_value val]"
| "accept (JBool val) = [bool_value val]"
| "accept (JArray xs) = begin_array # accept_values xs @ [end_array]"
| "accept (JObject ms) = begin_object # accept_members ms @ [end_object]"
| "accept_values [] = []"
| "accept_values (x # xs) = begin_value # accept x @ end_value # accept_values xs"
| "accept_members [] = []"
| "accept_members (m # ms) =
     begin_key # string_value (fst m) # end_key # begin_value # accept (snd m)
       @ end_value # accept_members ms"

subsection \<open>Strings and numbers\<close>

definition hex :: "nat \<Rightarrow> char" where
  "hex n = ''0123456789abcdef'' ! n"

text \<open>The \<open>switch\<close> of \<open>json_write_quoted_string\<close> on a character that needs escaping.\<close>

definition write_escape :: "char \<Rightarrow> string" where
  "write_escape c =
     (if c = CHR 0x22 then [CHR 0x5C, CHR 0x22]
      else if c = CHR 0x5C then [CHR 0x5C, CHR 0x5C]
      else if c = CHR 0x08 then [CHR 0x5C, CHR ''b'']
      else if c = CHR 0x0C then [CHR 0x5C, CHR ''f'']
      else if c = CHR 0x0A then [CHR 0x5C, CHR ''n'']
      else if c = CHR 0x0D then [CHR 0x5C, CHR ''r'']
      else if c = CHR 0x09 then [CHR 0x5C, CHR ''t'']
      else [CHR 0x5C, CHR ''u'', CHR ''0'', CHR ''0'',
            hex (of_char c div 16), hex (of_char c mod 16)])"

text \<open>
  The loop of \<open>json_write_quoted_string\<close>: the run up to the next character that needs
  escaping is written as it is, then the escape of that character.
\<close>

function write_runs :: "string \<Rightarrow> string" where
  "write_runs p =
     (if p = [] then []
      else takeWhile (\<lambda>c. \<not> need_escaping c) p @
        (case dropWhile (\<lambda>c. \<not> need_escaping c) p of
           [] \<Rightarrow> []
         | c # rest \<Rightarrow> write_escape c @ write_runs rest))"
  by pat_completeness auto
termination
proof (relation "measure length")
  show "wf (measure length)" by simp
next
  fix p :: string and c rest
  assume "dropWhile (\<lambda>c. \<not> need_escaping c) p = c # rest"
  then have "length (c # rest) \<le> length p"
    using length_dropWhile_le [of "\<lambda>c. \<not> need_escaping c" p] by simp
  then show "(rest, p) \<in> measure length" by simp
qed

declare write_runs.simps [simp del]

definition json_write_quoted_string :: "string \<Rightarrow> string" where
  "json_write_quoted_string str = CHR 0x22 # write_runs str @ [CHR 0x22]"

definition json_write_number :: "fpu \<Rightarrow> double \<Rightarrow> string" where
  "json_write_number F d =
     (case fpclass d of
        FPCLASS_SNAN \<Rightarrow> ''null''
      | FPCLASS_QNAN \<Rightarrow> ''null''
      | FPCLASS_NINF \<Rightarrow> CHR 0x22 # ''-inf'' @ [CHR 0x22]
      | FPCLASS_PINF \<Rightarrow> CHR 0x22 # ''+inf'' @ [CHR 0x22]
      | FPCLASS_ND \<Rightarrow> ''0''
      | FPCLASS_NZ \<Rightarrow> ''0''
      | FPCLASS_PZ \<Rightarrow> ''0''
      | FPCLASS_PD \<Rightarrow> ''0''
      | FPCLASS_NN \<Rightarrow> fp_format_16g F d
      | FPCLASS_PN \<Rightarrow> fp_format_16g F d)"

subsection \<open>The compact writer\<close>

datatype skip_state = skip_none | skip_comma

record json_writer =
  w_os :: string
  w_skip :: skip_state

definition put :: "string \<Rightarrow> json_writer \<Rightarrow> json_writer" where
  "put txt w = w\<lparr>w_os := w_os w @ txt\<rparr>"

fun writer_call :: "fpu \<Rightarrow> event \<Rightarrow> json_writer \<Rightarrow> json_writer" where
  "writer_call F null_value w = put ''null'' w"
| "writer_call F (string_value val) w = put (json_write_quoted_string val) w"
| "writer_call F (number_value val) w = put (json_write_number F val) w"
| "writer_call F (bool_value val) w = put (if val then ''true'' else ''false'') w"
| "writer_call F begin_array w = (put ''['' w)\<lparr>w_skip := skip_comma\<rparr>"
| "writer_call F end_array w = (put '']'' w)\<lparr>w_skip := skip_none\<rparr>"
| "writer_call F begin_object w = (put ''{'' w)\<lparr>w_skip := skip_comma\<rparr>"
| "writer_call F end_object w = (put ''}'' w)\<lparr>w_skip := skip_none\<rparr>"
| "writer_call F begin_key w =
     (if w_skip w = skip_comma then w\<lparr>w_skip := skip_none\<rparr> else put '','' w)"
| "writer_call F end_key w = (put '':'' w)\<lparr>w_skip := skip_comma\<rparr>"
| "writer_call F begin_value w =
     (if w_skip w = skip_comma then w\<lparr>w_skip := skip_none\<rparr> else put '','' w)"
| "writer_call F end_value w = w"

text \<open>\<open>to_string\<close>, that is \<open>operator<<\<close> into an empty stream.\<close>

definition to_string :: "fpu \<Rightarrow> json_value \<Rightarrow> string" where
  "to_string F v = w_os (fold (writer_call F) (accept v) \<lparr>w_os = [], w_skip = skip_comma\<rparr>)"

subsection \<open>The pretty printer\<close>

datatype pretty_skip_state = pskip_none | skip_comma_xor_newline | skip_comma_and_newline

record json_pretty_printer =
  p_os :: string
  p_skip :: pretty_skip_state
  p_indent_level :: int
  p_indent :: string

definition pput :: "string \<Rightarrow> json_pretty_printer \<Rightarrow> json_pretty_printer" where
  "pput txt p = p\<lparr>p_os := p_os p @ txt\<rparr>"

definition newline :: "json_pretty_printer \<Rightarrow> json_pretty_printer" where
  "newline p = pput (CHR 0x0A # concat (replicate (nat (p_indent_level p)) (p_indent p))) p"

fun pretty_call :: "fpu \<Rightarrow> event \<Rightarrow> json_pretty_printer \<Rightarrow> json_pretty_printer" where
  "pretty_call F null_value p = pput ''null'' p"
| "pretty_call F (string_value val) p = pput (json_write_quoted_string val) p"
| "pretty_call F (number_value val) p = pput (json_write_number F val) p"
| "pretty_call F (bool_value val) p = pput (if val then ''true'' else ''false'') p"
| "pretty_call F begin_array p =
     (pput ''['' p)\<lparr>p_skip := skip_comma_xor_newline, p_indent_level := p_indent_level p + 1\<rparr>"
| "pretty_call F end_array p =
     (let p1 = p\<lparr>p_indent_level := p_indent_level p - 1\<rparr>;
          p2 = (if p_skip p1 = pskip_none then newline p1 else p1)
      in (pput '']'' p2)\<lparr>p_skip := pskip_none\<rparr>)"
| "pretty_call F begin_object p =
     (pput ''{'' p)\<lparr>p_skip := skip_comma_and_newline, p_indent_level := p_indent_level p + 1\<rparr>"
| "pretty_call F end_object p =
     (let p1 = p\<lparr>p_indent_level := p_indent_level p - 1\<rparr>;
          p2 = (if p_skip p1 = pskip_none then newline p1 else p1)
      in (pput ''}'' p2)\<lparr>p_skip := pskip_none\<rparr>)"
| "pretty_call F begin_key p =
     (let p1 = (if p_skip p = pskip_none then pput '','' p else p)
      in (newline p1)\<lparr>p_skip := pskip_none\<rparr>)"
| "pretty_call F end_key p = (pput '' '' (pput '':'' p))\<lparr>p_skip := skip_comma_and_newline\<rparr>"
| "pretty_call F begin_value p =
     (let p1 = (if p_skip p = pskip_none then newline (pput '','' p)
                else if p_skip p = skip_comma_xor_newline then newline p
                else p)
      in p1\<lparr>p_skip := pskip_none\<rparr>)"
| "pretty_call F end_value p = p"

definition to_pretty_string :: "fpu \<Rightarrow> json_value \<Rightarrow> nat \<Rightarrow> string" where
  "to_pretty_string F v indent_size =
     p_os (fold (pretty_call F) (accept v)
       \<lparr>p_os = [], p_skip = skip_comma_and_newline, p_indent_level = 0,
        p_indent = replicate indent_size CHR '' ''\<rparr>)"


section \<open>Notions for the round trip\<close>









section \<open>Properties\<close>

subsection \<open>Reading through the iterator\<close>

lemma cur_simps [simp]: "cur [] = CHR 0x00" "cur (c # cs) = c"
  by (simp_all add: cur_def)

lemma adv_simps [simp]: "adv [] = []" "adv (c # cs) = cs"
  by (simp_all add: adv_def)

lemma parse_string_loop_unicode:
  "parse_string_loop ss (CHR 0x5C # CHR ''u'' # it) =
     (case parse_unicode_escape it of
        Inl err \<Rightarrow> Inl err
      | Inr (bytes, i3) \<Rightarrow> parse_string_loop (ss @ bytes) i3)"
  by (subst parse_string_loop.simps) simp

lemma psl_nil: "parse_string_loop ss [] = throw ''expected char or quotation-mark''"
  by (subst parse_string_loop.simps) simp

lemma psl_quote: "parse_string_loop ss (CHR 0x22 # r) = Inr (ss, r)"
  by (subst parse_string_loop.simps) simp

lemma psl_plain:
  "\<not> need_escaping c \<Longrightarrow> parse_string_loop ss (c # r) = parse_string_loop (ss @ [c]) r"
  by (subst parse_string_loop.simps) (auto simp: need_escaping_def)

lemma psl_escapes:
  "parse_string_loop ss (CHR 0x5C # CHR 0x22 # r) = parse_string_loop (ss @ [CHR 0x22]) r"
  "parse_string_loop ss (CHR 0x5C # CHR ''/'' # r) = parse_string_loop (ss @ [CHR ''/'']) r"
  "parse_string_loop ss (CHR 0x5C # CHR 0x5C # r) = parse_string_loop (ss @ [CHR 0x5C]) r"
  "parse_string_loop ss (CHR 0x5C # CHR ''b'' # r) = parse_string_loop (ss @ [CHR 0x08]) r"
  "parse_string_loop ss (CHR 0x5C # CHR ''f'' # r) = parse_string_loop (ss @ [CHR 0x0C]) r"
  "parse_string_loop ss (CHR 0x5C # CHR ''n'' # r) = parse_string_loop (ss @ [CHR 0x0A]) r"
  "parse_string_loop ss (CHR 0x5C # CHR ''r'' # r) = parse_string_loop (ss @ [CHR 0x0D]) r"
  "parse_string_loop ss (CHR 0x5C # CHR ''t'' # r) = parse_string_loop (ss @ [CHR 0x09]) r"
  by (subst parse_string_loop.simps, simp)+

lemma psl_bad_escape:
  "e \<notin> {CHR 0x22, CHR ''/'', CHR 0x5C, CHR ''b'', CHR ''f'', CHR ''n'', CHR ''r'', CHR ''t'', CHR ''u''}
     \<Longrightarrow> parse_string_loop ss (CHR 0x5C # e # r) = throw ''expected escape''"
  by (subst parse_string_loop.simps) simp

lemma psl_bad_escape_end: "parse_string_loop ss [CHR 0x5C] = throw ''expected escape''"
  by (subst parse_string_loop.simps) simp

lemma psl_control:
  "need_escaping c \<Longrightarrow> c \<noteq> CHR 0x5C \<Longrightarrow> c \<noteq> CHR 0x22 \<Longrightarrow>
     parse_string_loop ss (c # r) =
       (if c = CHR 0x00 then throw ''expected char or quotation-mark'' else throw ''expected char'')"
  by (subst parse_string_loop.simps) simp



subsection \<open>The value\<close>

subsubsection \<open>Order of the variants\<close>

lemma json_lt_rank: "vt a \<noteq> vt b \<Longrightarrow> json_lt a b = (spec_rank a < spec_rank b)"
  by (cases a; cases b) simp_all

text \<open>
  Claim C4. The comparison ranks the variants Null < String < Number < Bool < Array < Object:
  of two values of different variants the one of the lower rank is strictly less (and
  the other is not less than it), and the comparison is transitive over three values of
  pairwise different variants.
\<close>

theorem variant_ranking:
  "(vt a \<noteq> vt b \<longrightarrow> json_lt a b = (spec_rank a < spec_rank b))
   \<and> (vt a \<noteq> vt b \<and> spec_rank a < spec_rank b \<longrightarrow> json_lt a b \<and> \<not> json_lt b a)
   \<and> (vt a \<noteq> vt b \<and> vt b \<noteq> vt c \<and> vt a \<noteq> vt c \<and> json_lt a b \<and> json_lt b c \<longrightarrow> json_lt a c)"
proof -
  have r: "\<And>x y. vt x \<noteq> vt y \<Longrightarrow> json_lt x y = (spec_rank x < spec_rank y)"
    by (rule json_lt_rank)
  show ?thesis
    using r [of a b] r [of b a] r [of b c] r [of a c] by auto
qed

theorem variant_ranking_witness:
  "json_lt JNull (JString ''a'') \<and> json_lt (JString ''a'') (JNumber 0) \<and> json_lt JNull (JNumber 0)
   \<and> \<not> json_lt (JString ''a'') JNull"
  using variant_ranking [of JNull "JString ''a''" "JNumber 0"] by simp

subsubsection \<open>Equality of NaN\<close>

lemma isnan_ex1: "isnan 0x7FF8000000000000"
  by (simp add: isnan_def fpclass_def exponent_bits_def mantissa_bits_def sign_bit_def)

lemma isnan_ex2: "isnan 0xFFF0000000000001"
  by (simp add: isnan_def fpclass_def exponent_bits_def mantissa_bits_def sign_bit_def)

text \<open>
  Claim C5. Two numbers whose payloads are both NaN, whatever their bits, are equal under
  \<open>operator==\<close>, although the built-in comparison of the two doubles is false.
\<close>

theorem nan_equals_nan:
  "isnan a \<Longrightarrow> isnan b \<Longrightarrow> json_eq (JNumber a) (JNumber b) \<and> \<not> double_eq a b"
  by (simp add: double_eq_def)
theorem nan_equals_nan_witness:
  "isnan 0x7FF8000000000000 \<and> isnan 0xFFF0000000000001
   \<and> json_eq (JNumber 0x7FF8000000000000) (JNumber 0xFFF0000000000001)
   \<and> \<not> double_eq 0x7FF8000000000000 0xFFF0000000000001"
  using nan_equals_nan [OF isnan_ex1 isnan_ex2] isnan_ex1 isnan_ex2 by blast

subsubsection \<open>Navigation\<close>

text \<open>
  Claim C2, as stated, fails where assertions are compiled in: \<open>get_child(5)\<close> on an object
  and \<open>get_child("x")\<close> on an array stop at the assertion on the receiver's variant.
\<close>

theorem get_child_debug_assertion:
  "get_child True (JObject [(''a'', JNull)]) 5 = Inl assertion_failed
   \<and> get_child_named True (JArray [JNull]) ''x'' = Inl assertion_failed"
  by (simp add: get_child_def get_child_named_def is_null_def is_array_def is_object_def)

text \<open>
  Claim C2, amended. Whenever the receiver is not an array or the index is not below its
  length, \<open>get_child(i)\<close> returns the null value, except that with assertions compiled in
  a receiver that is neither null nor an array fails the assertion; the same holds for
  \<open>get_child(name)\<close> with a receiver that is not an object or has no such member, the
  assertion there asking for null or an object. On a null receiver both return null
  in either build, and \<open>get_child(5)\<close> on an object returns null when assertions are off.
\<close>

theorem get_child_null:
  "((\<not> is_array v \<or> i \<ge> get_length v) \<longrightarrow>
       get_child dbg v i =
         (if dbg \<and> \<not> (is_null v \<or> is_array v) then Inl assertion_failed else Inr JNull))
   \<and> ((\<not> is_object v \<or> \<not> has_child v name) \<longrightarrow>
       get_child_named dbg v name =
         (if dbg \<and> \<not> (is_null v \<or> is_object v) then Inl assertion_failed else Inr JNull))
   \<and> get_child dbg JNull 0 = Inr JNull
   \<and> get_child_named dbg JNull ''x'' = Inr JNull
   \<and> get_child False (JObject ms) 5 = Inr JNull"
  by (cases v)
     (auto simp: get_child_def get_child_named_def get_length_def has_child_def
        is_null_def is_array_def is_object_def split: option.splits)

theorem get_child_null_witness:
  "\<not> is_array (JString ''s'') \<and> get_child False (JString ''s'') 2 = Inr JNull
   \<and> \<not> has_child (JObject [(''a'', JBool True)]) ''b''
   \<and> get_child_named True (JObject [(''a'', JBool True)]) ''b'' = Inr JNull"
  using get_child_null [where v = "JString ''s''" and i = 2 and dbg = False]
    get_child_null [where v = "JObject [(''a'', JBool True)]" and dbg = True and name = "''b''"]
  by (simp add: is_array_def is_null_def is_object_def has_child_def)

subsubsection \<open>Growth by index\<close>



subsubsection \<open>Members by name\<close>

lemma map_find_insert_same: "map_find n ms \<noteq> None \<Longrightarrow> map_insert n x ms = ms"
  by (induction ms) (auto split: if_splits)

lemma map_find_insert: "map_find n (map_insert n x ms) \<noteq> None"
  by (induction ms) auto

lemma map_find_assign: "map_find n ms \<noteq> None \<Longrightarrow> map_find n (map_assign n x ms) = Some x"
  by (induction ms) (auto split: if_splits)

text \<open>
  Claim C9. On an object that has a member \<open>n\<close>, \<open>put_child(n)\<close> leaves the object as it is
  (the member, the other members and their number) and returns the reference to the
  member, whose value is still the one stored.
\<close>

theorem put_child_existing:
  "has_child (JObject ms) n \<Longrightarrow>
     put_child_named dbg (JObject ms) n = Inr (JObject ms, Key n)
     \<and> slot (JObject ms) (Key n) = map_find n ms
     \<and> get_child_named dbg (JObject ms) n = Inr (the (map_find n ms))"
  by (auto simp: has_child_def put_child_named_def get_child_named_def is_null_def is_object_def
      map_find_insert_same)

theorem put_child_existing_witness:
  "has_child (JObject [(''a'', JBool True), (''b'', JNull)]) ''a''
   \<and> put_child_named True (JObject [(''a'', JBool True), (''b'', JNull)]) ''a''
       = Inr (JObject [(''a'', JBool True), (''b'', JNull)], Key ''a'')
   \<and> slot (JObject [(''a'', JBool True), (''b'', JNull)]) (Key ''a'') = Some (JBool True)"
  using put_child_existing [of "[(''a'', JBool True), (''b'', JNull)]" "''a''" True]
  by (simp add: has_child_def)
lemma sorted_find_None: "sorted_wrt (<) (map fst ms) \<Longrightarrow> \<forall>k\<in>set (map fst ms). n < k \<Longrightarrow> map_find n ms = None"
  by (cases ms) auto

lemma map_erase_props:
  "sorted_wrt (<) (map fst ms) \<Longrightarrow> map_erase n ms = (c, ms') \<Longrightarrow>
     (c \<noteq> 0) = (map_find n ms \<noteq> None) \<and> map_find n ms' = None
     \<and> (\<forall>k. k \<noteq> n \<longrightarrow> map_find k ms' = map_find k ms)
     \<and> set ms' \<subseteq> set ms"
proof (induction ms arbitrary: c ms')
  case Nil
  then show ?case by simp
next
  case (Cons m ms)
  obtain k x where m: "m = (k, x)" by (cases m)
  show ?case
  proof (cases "n < k")
    case True
    with Cons.prems m show ?thesis by auto
  next
    case nk: False
    show ?thesis
    proof (cases "k < n")
      case True
      obtain c0 ms0 where e: "map_erase n ms = (c0, ms0)" by (cases "map_erase n ms")
      from Cons.prems m have s: "sorted_wrt (<) (map fst ms)" by simp
      note ih = Cons.IH [OF s e]
      from Cons.prems m True nk e have r: "c = c0" "ms' = (k, x) # ms0" by auto
      show ?thesis using ih r True nk m by auto
    next
      case False
      with nk have kn: "k = n" by auto
      from Cons.prems m kn have r: "c = 1" "ms' = ms" by auto
      from Cons.prems m kn have gt: "\<forall>l\<in>set (map fst ms). n < l" by auto
      from Cons.prems m have s: "sorted_wrt (<) (map fst ms)" by simp
      have none: "map_find n ms = None" using sorted_find_None [OF s gt] .
      have other: "\<And>l. l \<noteq> n \<Longrightarrow> map_find l ms = map_find l ((k, x) # ms)"
      proof -
        fix l assume ln: "l \<noteq> n"
        show "map_find l ms = map_find l ((k, x) # ms)"
        proof (cases "l < n")
          case True
          then have "\<forall>j\<in>set (map fst ms). l < j" using gt by auto
          then have "map_find l ms = None" using sorted_find_None [OF s] by blast
          with True kn show ?thesis by simp
        next
          case False
          with ln have "n < l" by auto
          with kn show ?thesis by auto
        qed
      qed
      show ?thesis using r none other m kn by auto
    qed
  qed
qed

text \<open>
  Claim C10. On an object, \<open>erase_child(n)\<close> returns whether \<open>has_child(n)\<close> held; afterwards
  \<open>has_child(n)\<close> is false, and every other name has the member it had, or none as before.
\<close>

theorem erase_child_spec:
  "wf_value (JObject ms) \<Longrightarrow> erase_child dbg (JObject ms) n = r \<Longrightarrow>
     (\<exists>ms'. r = Inr (has_child (JObject ms) n, JObject ms')
        \<and> \<not> has_child (JObject ms') n
        \<and> (\<forall>k. k \<noteq> n \<longrightarrow> get_child_named dbg (JObject ms') k = get_child_named dbg (JObject ms) k
                      \<and> has_child (JObject ms') k = has_child (JObject ms) k))"
proof -
  assume wf: "wf_value (JObject ms)" and e: "erase_child dbg (JObject ms) n = r"
  obtain c ms' where me: "map_erase n ms = (c, ms')" by (cases "map_erase n ms")
  from wf have s: "sorted_wrt (<) (map fst ms)" by simp
  note p = map_erase_props [OF s me]
  from e me have r: "r = Inr (c \<noteq> 0, JObject ms')"
    by (simp add: erase_child_def is_null_def is_object_def)
  show ?thesis
    using r p by (auto simp: has_child_def get_child_named_def is_null_def is_object_def)
qed

theorem erase_child_spec_witness:
  "wf_value (JObject [(''a'', JBool True), (''b'', JNull)])
   \<and> (\<exists>ms'. erase_child True (JObject [(''a'', JBool True), (''b'', JNull)]) ''a''
              = Inr (True, JObject ms')
          \<and> \<not> has_child (JObject ms') ''a''
          \<and> has_child (JObject ms') ''b'')"
proof -
  have wf: "wf_value (JObject [(''a'', JBool True), (''b'', JNull)])" by simp
  have h: "has_child (JObject [(''a'', JBool True), (''b'', JNull)]) ''a''"
    "has_child (JObject [(''a'', JBool True), (''b'', JNull)]) ''b''"
    by (simp_all add: has_child_def)
  from erase_child_spec [OF wf refl, of True "''a''"] wf h show ?thesis
    by fastforce
qed


subsection \<open>Numbers by class\<close>

lemma to_string_number: "to_string F (JNumber d) = json_write_number F d"
  by (simp add: to_string_def put_def)

lemma to_pretty_string_number: "to_pretty_string F (JNumber d) n = json_write_number F d"
  by (simp add: to_pretty_string_def pput_def)

lemma fpclass_examples:
  "fpclass 0xFFF0000000000000 = FPCLASS_NINF"
  "fpclass 0x7FF0000000000000 = FPCLASS_PINF"
  "fpclass 0x7FF8000000000000 = FPCLASS_QNAN"
  "fpclass 0x7FF0000000000001 = FPCLASS_SNAN"
  "fpclass 0x8000000000000000 = FPCLASS_NZ"
  "fpclass 0 = FPCLASS_PZ"
  "fpclass 0x0000000000000001 = FPCLASS_PD"
  "fpclass 0x800FFFFFFFFFFFFF = FPCLASS_ND"
  by (simp_all add: fpclass_def exponent_bits_def mantissa_bits_def sign_bit_def)

text \<open>
  Claim C3. What either writer emits for a number is decided by the class of the double
  where the class is not normal: \<open>null\<close> for a NaN, signalling or quiet; the quoted
  strings \<open>"-inf"\<close> and \<open>"+inf"\<close> for the infinities; the single character \<open>0\<close> for
  both zeros and every denormal. So for the bit patterns of negative infinity, of a NaN
  and of \<open>-0.0\<close>.
\<close>

theorem number_classes:
  "(fpclass d = FPCLASS_SNAN \<or> fpclass d = FPCLASS_QNAN \<longrightarrow>
      to_string F (JNumber d) = ''null'' \<and> to_pretty_string F (JNumber d) n = ''null'')
   \<and> (fpclass d = FPCLASS_NINF \<longrightarrow>
      to_string F (JNumber d) = CHR 0x22 # ''-inf'' @ [CHR 0x22]
      \<and> to_pretty_string F (JNumber d) n = CHR 0x22 # ''-inf'' @ [CHR 0x22])
   \<and> (fpclass d = FPCLASS_PINF \<longrightarrow>
      to_string F (JNumber d) = CHR 0x22 # ''+inf'' @ [CHR 0x22]
      \<and> to_pretty_string F (JNumber d) n = CHR 0x22 # ''+inf'' @ [CHR 0x22])
   \<and> (fpclass d = FPCLASS_PZ \<or> fpclass d = FPCLASS_NZ \<or> fpclass d = FPCLASS_PD
        \<or> fpclass d = FPCLASS_ND \<longrightarrow>
      to_string F (JNumber d) = ''0'' \<and> to_pretty_string F (JNumber d) n = ''0'')
   \<and> to_string F (JNumber 0xFFF0000000000000) = CHR 0x22 # ''-inf'' @ [CHR 0x22]
   \<and> to_string F (JNumber 0x7FF8000000000000) = ''null''
   \<and> to_string F (JNumber 0x8000000000000000) = ''0''"
  by (auto simp: to_string_number to_pretty_string_number json_write_number_def fpclass_examples)

theorem number_classes_witness:
  "fpclass 0x0000000000000001 = FPCLASS_PD
   \<and> to_string no_fpu (JNumber 0x0000000000000001) = ''0''
   \<and> to_pretty_string no_fpu (JNumber 0x0000000000000001) 4 = ''0''
   \<and> fpclass 0x7FF0000000000001 = FPCLASS_SNAN
   \<and> to_string no_fpu (JNumber 0x7FF0000000000001) = ''null''
   \<and> fpclass 0x7FF0000000000000 = FPCLASS_PINF
   \<and> to_pretty_string no_fpu (JNumber 0x7FF0000000000000) 2 = CHR 0x22 # ''+inf'' @ [CHR 0x22]"
  using number_classes [where d = "0x0000000000000001" and F = no_fpu and n = 4]
    number_classes [where d = "0x7FF0000000000001" and F = no_fpu and n = 4]
    number_classes [where d = "0x7FF0000000000000" and F = no_fpu and n = 2]
  by (simp add: fpclass_examples)


subsection \<open>Escapes of code points\<close>






subsection \<open>The parser always returns\<close>

text \<open>
  Every function of the parser that returns an iterator returns one further on, so each
  recursive call and each round of a loop has less input ahead. Hence a run never uses
  up fuel of more than twice the length of the input, which is what \<open>parse\<close> gives it.
\<close>

lemma length_adv: "length (adv it) \<le> length it"
  by (cases it) simp_all

lemma length_adv_less: "cur it \<noteq> CHR 0x00 \<Longrightarrow> length (adv it) < length it"
  by (cases it) simp_all

lemma length_skip_whitespace: "length (skip_whitespace it) \<le> length it"
  by (induction it) auto

lemma parse_string_loop_length:
  "parse_string_loop ss it = Inr (str, rest) \<Longrightarrow> length rest < length it"
proof (induction "length it" arbitrary: ss it rule: less_induct)
  case less
  show ?case
  proof (cases it)
    case Nil
    with less.prems show ?thesis by (simp add: psl_nil throw_def)
  next
    case (Cons c r)
    show ?thesis
    proof (cases "c = CHR 0x22")
      case True
      with less.prems Cons show ?thesis by (simp add: psl_quote)
    next
      case nq: False
      show ?thesis
      proof (cases "c = CHR 0x5C")
        case False
        show ?thesis
        proof (cases "need_escaping c")
          case True
          with less.prems Cons nq False show ?thesis
            by (simp add: psl_control throw_def split: if_splits)
        next
          case ne: False
          with less.prems Cons have "parse_string_loop (ss @ [c]) r = Inr (str, rest)"
            by (simp add: psl_plain)
          from less.hyps [OF _ this] Cons show ?thesis by simp
        qed
      next
        case bs: True
        show ?thesis
        proof (cases r)
          case Nil
          with less.prems Cons bs show ?thesis by (simp add: psl_bad_escape_end throw_def)
        next
          case (Cons e r')
          note r = this
          show ?thesis
          proof (cases "e = CHR ''u''")
            case True
            with less.prems \<open>it = c # r\<close> bs r
            obtain bytes i3 where u: "parse_unicode_escape r' = Inr (bytes, i3)"
              and p: "parse_string_loop (ss @ bytes) i3 = Inr (str, rest)"
              by (auto simp: parse_string_loop_unicode split: sum.splits)
            from parse_unicode_escape_length [OF u] have l: "length i3 \<le> length r'" .
            with \<open>it = c # r\<close> r have "length i3 < length it" by simp
            from less.hyps [OF this p] l \<open>it = c # r\<close> r show ?thesis by simp
          next
            case nu: False
            show ?thesis
            proof (cases "e \<in> {CHR 0x22, CHR ''/'', CHR 0x5C, CHR ''b'', CHR ''f'', CHR ''n'', CHR ''r'', CHR ''t''}")
              case False
              with nu have "e \<notin> {CHR 0x22, CHR ''/'', CHR 0x5C, CHR ''b'', CHR ''f'', CHR ''n'', CHR ''r'', CHR ''t'', CHR ''u''}"
                by simp
              from psl_bad_escape [OF this] less.prems \<open>it = c # r\<close> bs r show ?thesis
                by (simp add: throw_def)
            next
              case True
              with less.prems \<open>it = c # r\<close> bs r
              obtain x where "parse_string_loop (ss @ [x]) r' = Inr (str, rest)"
                by (auto simp: psl_escapes)
              from less.hyps [OF _ this] \<open>it = c # r\<close> r show ?thesis by simp
            qed
          qed
        qed
      qed
    qed
  qed
qed

lemma parse_string_length:
  "parse_string dbg it = (evs, Inr rest) \<Longrightarrow> length rest < length it"
proof -
  assume a: "parse_string dbg it = (evs, Inr rest)"
  then obtain str where "parse_string_loop [] (adv it) = Inr (str, rest)"
    by (auto simp: parse_string_def split: if_splits sum.splits)
  from parse_string_loop_length [OF this] length_adv [of it] show ?thesis by simp
qed

lemma adv3_less: "cur (adv (adv it)) \<noteq> CHR 0x00 \<Longrightarrow> length (adv (adv (adv it))) < length it"
  by (cases it; cases "tl it"; cases "tl (tl it)") auto

lemma parse_null_length: "parse_null dbg it = (evs, Inr rest) \<Longrightarrow> length rest < length it"
  using adv3_less [of it] length_adv [of "adv (adv (adv it))"]
  by (auto simp: parse_null_def Let_def throw_def split: if_splits)

lemma parse_true_length: "parse_true dbg it = (evs, Inr rest) \<Longrightarrow> length rest < length it"
  using adv3_less [of it] length_adv [of "adv (adv (adv it))"]
  by (auto simp: parse_true_def Let_def throw_def split: if_splits)

lemma parse_false_length: "parse_false dbg it = (evs, Inr rest) \<Longrightarrow> length rest < length it"
  using adv3_less [of it] length_adv [of "adv (adv (adv it))"] length_adv [of "adv (adv (adv (adv it)))"]
  by (auto simp: parse_false_def Let_def throw_def split: if_splits)

lemma parse_int_double_length: "parse_int_double F a it = (x, rest) \<Longrightarrow> length rest \<le> length it"
  by (induction it arbitrary: a) (force split: if_splits intro: le_SucI)+

lemma parse_int_int_length: "parse_int_int a it = (x, rest) \<Longrightarrow> length rest \<le> length it"
  by (induction it arbitrary: a) (force split: if_splits intro: le_SucI)+

lemma fraction_loop_length: "fraction_loop F a b it = (x, rest) \<Longrightarrow> length rest \<le> length it"
  by (induction it arbitrary: a b) (force split: if_splits intro: le_SucI)+

lemma parse_int_double_digit:
  "is_digit (cur it) \<Longrightarrow> parse_int_double F a it = (x, rest) \<Longrightarrow> length rest < length it"
  by (cases it) (auto simp: is_digit_def dest: parse_int_double_length split: if_splits)

lemma number_integer_length:
  "number_integer F it = Inr (x, rest) \<Longrightarrow> length rest < length it"
proof -
  assume a: "number_integer F it = Inr (x, rest)"
  show ?thesis
  proof (cases "cur it = CHR ''0''")
    case True
    with a length_adv_less [of it] show ?thesis by (auto simp: number_integer_def)
  next
    case False
    have z: "CHR ''0'' \<le> CHR ''1''" by simp
    from False a have d: "is_digit (cur it)" and p: "parse_int_double F double_zero it = (x, rest)"
      using order_trans [OF z, of "cur it"]
      by (auto simp: number_integer_def is_digit_def throw_def split: if_splits)
    from parse_int_double_digit [OF d p] show ?thesis .
  qed
qed

lemma number_fraction_length:
  "number_fraction F n it = Inr (x, rest) \<Longrightarrow> length rest \<le> length it"
  using length_adv [of it]
  by (auto simp: number_fraction_def Let_def parse_fraction_def throw_def
      dest!: fraction_loop_length split: if_splits prod.splits)

lemma number_exponent_length:
  "number_exponent F n it = Inr (x, rest) \<Longrightarrow> length rest \<le> length it"
  using length_adv [of it] length_adv [of "adv it"]
  by (auto simp: number_exponent_def Let_def throw_def
      dest!: parse_int_int_length split: if_splits prod.splits)

lemma parse_number_length:
  "parse_number F it = (evs, Inr rest) \<Longrightarrow> length rest < length it"
proof -
  assume a: "parse_number F it = (evs, Inr rest)"
  define i0 where "i0 = (if cur it = CHR ''-'' then adv it else it)"
  have l0: "length i0 \<le> length it" using length_adv [of it] by (simp add: i0_def)
  from a obtain n1 i1 n2 i2 n3 where
    "number_integer F i0 = Inr (n1, i1)" "number_fraction F n1 i1 = Inr (n2, i2)"
    "number_exponent F n2 i2 = Inr (n3, rest)"
    by (auto simp: parse_number_def Let_def i0_def split: sum.splits)
  from number_integer_length [OF this(1)] number_fraction_length [OF this(2)]
    number_exponent_length [OF this(3)] l0
  show ?thesis by simp
qed


lemma parse_object_shrinks:
  assumes ol: "\<And>i e r. object_loop F dbg n i = Some (e, Inr r) \<Longrightarrow> length r < length i"
    and po: "parse_object F dbg n it = Some (evs, Inr rest)"
  shows "length rest < length it"
proof (cases "cur (skip_whitespace (adv it)) = CHR ''}''")
  case True
  with po have "rest = adv (skip_whitespace (adv it))"
    by (auto simp: parse_object.simps Let_def split: if_splits)
  with True length_adv_less [of "skip_whitespace (adv it)"]
    length_skip_whitespace [of "adv it"] length_adv [of it]
  show ?thesis by simp
next
  case False
  with po obtain e where "object_loop F dbg n (skip_whitespace (adv it)) = Some (e, Inr rest)"
    by (auto simp: parse_object.simps Let_def split: if_splits)
  from ol [OF this] length_skip_whitespace [of "adv it"] length_adv [of it]
  show ?thesis by simp
qed

lemma parse_array_shrinks:
  assumes al: "\<And>i e r. array_loop F dbg n i = Some (e, Inr r) \<Longrightarrow> length r < length i"
    and pa: "parse_array F dbg n it = Some (evs, Inr rest)"
  shows "length rest < length it"
proof (cases "cur (skip_whitespace (adv it)) = CHR '']''")
  case True
  with pa have "rest = adv (skip_whitespace (adv it))"
    by (auto simp: parse_array.simps Let_def split: if_splits)
  with True length_adv_less [of "skip_whitespace (adv it)"]
    length_skip_whitespace [of "adv it"] length_adv [of it]
  show ?thesis by simp
next
  case False
  with pa obtain e where "array_loop F dbg n (skip_whitespace (adv it)) = Some (e, Inr rest)"
    by (auto simp: parse_array.simps Let_def split: if_splits)
  from al [OF this] length_skip_whitespace [of "adv it"] length_adv [of it]
  show ?thesis by simp
qed

lemma parse_value_shrinks_step:
  assumes po: "\<And>i e r. parse_object F dbg n i = Some (e, Inr r) \<Longrightarrow> length r < length i"
    and pa: "\<And>i e r. parse_array F dbg n i = Some (e, Inr r) \<Longrightarrow> length r < length i"
    and pv: "parse_value F dbg (Suc n) it = Some (evs, Inr rest)"
  shows "length rest < length it"
  using pv po [of it evs rest] pa [of it evs rest]
  by (auto simp: parse_value.simps Let_def split: if_splits
      dest: parse_null_length parse_true_length parse_false_length parse_string_length
        parse_number_length)

lemma array_loop_shrinks_step:
  assumes pv: "\<And>i e r. parse_value F dbg n i = Some (e, Inr r) \<Longrightarrow> length r < length i"
    and al: "\<And>i e r. array_loop F dbg n i = Some (e, Inr r) \<Longrightarrow> length r < length i"
    and a: "array_loop F dbg (Suc n) it = Some (evs, Inr rest)"
  shows "length rest < length it"
proof -
  from a obtain vevs i1 where v: "parse_value F dbg n it = Some (vevs, Inr i1)"
    by (auto simp: array_loop.simps split: option.splits sum.splits)
  note l1 = pv [OF v]
  define i2 where "i2 = skip_whitespace i1"
  have l2: "length i2 \<le> length i1" by (simp add: i2_def length_skip_whitespace)
  show ?thesis
  proof (cases "cur i2 = CHR '',''")
    case True
    with a v obtain e where "array_loop F dbg n (skip_whitespace (adv i2)) = Some (e, Inr rest)"
      by (auto simp: array_loop.simps Let_def i2_def)
    from al [OF this] length_skip_whitespace [of "adv i2"] length_adv [of i2] l1 l2
    show ?thesis by simp
  next
    case False
    with a v have "rest = adv i2"
      by (auto simp: array_loop.simps Let_def i2_def throw_def split: if_splits)
    with length_adv [of i2] l1 l2 show ?thesis by simp
  qed
qed

lemma object_loop_shrinks_step:
  assumes pv: "\<And>i e r. parse_value F dbg n i = Some (e, Inr r) \<Longrightarrow> length r < length i"
    and ol: "\<And>i e r. object_loop F dbg n i = Some (e, Inr r) \<Longrightarrow> length r < length i"
    and a: "object_loop F dbg (Suc n) it = Some (evs, Inr rest)"
  shows "length rest < length it"
proof -
  from a have q: "cur it = CHR 0x22"
    by (auto simp: object_loop.simps throw_def split: if_splits)
  from a q obtain kevs i1 where k: "parse_string dbg it = (kevs, Inr i1)"
    by (cases "parse_string dbg it"; cases "snd (parse_string dbg it)")
       (auto simp: object_loop.simps)
  note l1 = parse_string_length [OF k]
  define i2 where "i2 = skip_whitespace i1"
  have l2: "length i2 \<le> length i1" by (simp add: i2_def length_skip_whitespace)
  from a q k have c: "cur i2 = CHR '':''"
    by (auto simp: object_loop.simps Let_def i2_def throw_def split: if_splits)
  define i3 where "i3 = skip_whitespace (adv i2)"
  have l3: "length i3 \<le> length i2"
    using length_skip_whitespace [of "adv i2"] length_adv [of i2] by (simp add: i3_def)
  from a q k c obtain vevs i4 where v: "parse_value F dbg n i3 = Some (vevs, Inr i4)"
    by (auto simp: object_loop.simps Let_def i2_def i3_def split: option.splits sum.splits)
  note l4 = pv [OF v]
  define i5 where "i5 = skip_whitespace i4"
  have l5: "length i5 \<le> length i4" by (simp add: i5_def length_skip_whitespace)
  show ?thesis
  proof (cases "cur i5 = CHR '',''")
    case True
    with a q k c v obtain e where "object_loop F dbg n (skip_whitespace (adv i5)) = Some (e, Inr rest)"
      by (auto simp: object_loop.simps Let_def i2_def i3_def i5_def)
    from ol [OF this] length_skip_whitespace [of "adv i5"] length_adv [of i5] l1 l2 l3 l4 l5
    show ?thesis by simp
  next
    case False
    with a q k c v have "rest = adv i5"
      by (auto simp: object_loop.simps Let_def i2_def i3_def i5_def throw_def split: if_splits)
    with length_adv [of i5] l1 l2 l3 l4 l5 show ?thesis by simp
  qed
qed

lemma parser_shrinks:
  "(\<forall>it evs rest. parse_value F dbg n it = Some (evs, Inr rest) \<longrightarrow> length rest < length it)
   \<and> (\<forall>it evs rest. object_loop F dbg n it = Some (evs, Inr rest) \<longrightarrow> length rest < length it)
   \<and> (\<forall>it evs rest. array_loop F dbg n it = Some (evs, Inr rest) \<longrightarrow> length rest < length it)"
proof (induction n)
  case 0
  show ?case by simp
next
  case (Suc n)
  then have pv: "\<And>i e r. parse_value F dbg n i = Some (e, Inr r) \<Longrightarrow> length r < length i"
    and ol: "\<And>i e r. object_loop F dbg n i = Some (e, Inr r) \<Longrightarrow> length r < length i"
    and al: "\<And>i e r. array_loop F dbg n i = Some (e, Inr r) \<Longrightarrow> length r < length i"
    by blast+
  have po: "\<And>i e r. parse_object F dbg n i = Some (e, Inr r) \<Longrightarrow> length r < length i"
    by (rule parse_object_shrinks [OF ol])
  have pa: "\<And>i e r. parse_array F dbg n i = Some (e, Inr r) \<Longrightarrow> length r < length i"
    by (rule parse_array_shrinks [OF al])
  have "\<And>i e r. parse_value F dbg (Suc n) i = Some (e, Inr r) \<Longrightarrow> length r < length i"
    by (rule parse_value_shrinks_step [where F = F and dbg = dbg and n = n]) (auto dest: po pa)
  moreover
  have "\<And>i e r. object_loop F dbg (Suc n) i = Some (e, Inr r) \<Longrightarrow> length r < length i"
    by (rule object_loop_shrinks_step [where F = F and dbg = dbg and n = n]) (auto dest: pv ol)
  moreover
  have "\<And>i e r. array_loop F dbg (Suc n) i = Some (e, Inr r) \<Longrightarrow> length r < length i"
    by (rule array_loop_shrinks_step [where F = F and dbg = dbg and n = n]) (auto dest: pv al)
  ultimately show ?case by blast
qed

lemma parse_value_shrinks:
  "parse_value F dbg n it = Some (evs, Inr rest) \<Longrightarrow> length rest < length it"
  using parser_shrinks [of F dbg n] by blast

lemma object_loop_shrinks:
  "object_loop F dbg n it = Some (evs, Inr rest) \<Longrightarrow> length rest < length it"
  using parser_shrinks [of F dbg n] by blast

lemma array_loop_shrinks:
  "array_loop F dbg n it = Some (evs, Inr rest) \<Longrightarrow> length rest < length it"
  using parser_shrinks [of F dbg n] by blast


lemma length_adv_cur: "cur it \<noteq> CHR 0x00 \<Longrightarrow> Suc (length (adv it)) = length it"
  by (cases it) simp_all

lemma parse_object_total:
  assumes ol: "\<And>i. 2 * length i < n \<Longrightarrow> object_loop F dbg n i \<noteq> None"
    and c: "cur it = CHR ''{''" and f: "2 * length it \<le> n"
  shows "parse_object F dbg n it \<noteq> None"
proof -
  from c have "Suc (length (adv it)) = length it" by (simp add: length_adv_cur)
  with length_skip_whitespace [of "adv it"] f
  have "2 * length (skip_whitespace (adv it)) < n" by simp
  from ol [OF this] c show ?thesis
    by (auto simp: parse_object.simps Let_def)
qed

lemma parse_array_total:
  assumes al: "\<And>i. 2 * length i + 1 < n \<Longrightarrow> array_loop F dbg n i \<noteq> None"
    and c: "cur it = CHR ''[''" and f: "2 * length it \<le> n"
  shows "parse_array F dbg n it \<noteq> None"
proof -
  from c have "Suc (length (adv it)) = length it" by (simp add: length_adv_cur)
  with length_skip_whitespace [of "adv it"] f
  have "2 * length (skip_whitespace (adv it)) + 1 < n" by simp
  from al [OF this] c show ?thesis
    by (auto simp: parse_array.simps Let_def)
qed

lemma parse_value_total_step:
  assumes po: "\<And>i. cur i = CHR ''{'' \<Longrightarrow> 2 * length i \<le> n \<Longrightarrow> parse_object F dbg n i \<noteq> None"
    and pa: "\<And>i. cur i = CHR ''['' \<Longrightarrow> 2 * length i \<le> n \<Longrightarrow> parse_array F dbg n i \<noteq> None"
    and f: "2 * length it < Suc n"
  shows "parse_value F dbg (Suc n) it \<noteq> None"
  using po [of it] pa [of it] f by (simp add: parse_value.simps Let_def)

lemma array_loop_total_step:
  assumes pv: "\<And>i. 2 * length i < n \<Longrightarrow> parse_value F dbg n i \<noteq> None"
    and al: "\<And>i. 2 * length i + 1 < n \<Longrightarrow> array_loop F dbg n i \<noteq> None"
    and f: "2 * length it + 1 < Suc n"
  shows "array_loop F dbg (Suc n) it \<noteq> None"
proof -
  from f have "2 * length it < n" by simp
  from pv [OF this] obtain vevs r where v: "parse_value F dbg n it = Some (vevs, r)"
    by (cases "parse_value F dbg n it") auto
  show ?thesis
  proof (cases r)
    case (Inl e)
    with v show ?thesis by (simp add: array_loop.simps)
  next
    case (Inr i1)
    from parse_value_shrinks [of F dbg n it vevs i1] v Inr have l1: "length i1 < length it"
      by simp
    define i2 where "i2 = skip_whitespace i1"
    have l2: "length i2 \<le> length i1" by (simp add: i2_def length_skip_whitespace)
    show ?thesis
    proof (cases "cur i2 = CHR '',''")
      case True
      with length_skip_whitespace [of "adv i2"] length_adv [of i2] l1 l2 f
      have "2 * length (skip_whitespace (adv i2)) + 1 < n" by simp
      from al [OF this] v Inr True show ?thesis
        by (simp add: array_loop.simps Let_def i2_def)
    next
      case False
      with v Inr show ?thesis
        by (simp add: array_loop.simps Let_def i2_def)
    qed
  qed
qed

lemma object_loop_total_step:
  assumes pv: "\<And>i. 2 * length i < n \<Longrightarrow> parse_value F dbg n i \<noteq> None"
    and ol: "\<And>i. 2 * length i < n \<Longrightarrow> object_loop F dbg n i \<noteq> None"
    and f: "2 * length it < Suc n"
  shows "object_loop F dbg (Suc n) it \<noteq> None"
proof (cases "cur it = CHR 0x22")
  case False
  then show ?thesis by (simp add: object_loop.simps)
next
  case q: True
  obtain kevs kr where k: "parse_string dbg it = (kevs, kr)" by (cases "parse_string dbg it")
  show ?thesis
  proof (cases kr)
    case (Inl e)
    with q k show ?thesis by (simp add: object_loop.simps)
  next
    case (Inr i1)
    from parse_string_length [of dbg it kevs i1] k Inr have l1: "length i1 < length it" by simp
    define i2 where "i2 = skip_whitespace i1"
    have l2: "length i2 \<le> length i1" by (simp add: i2_def length_skip_whitespace)
    show ?thesis
    proof (cases "cur i2 = CHR '':''")
      case False
      with q k Inr show ?thesis by (simp add: object_loop.simps Let_def i2_def)
    next
      case c: True
      define i3 where "i3 = skip_whitespace (adv i2)"
      have l3: "length i3 \<le> length i2"
        using length_skip_whitespace [of "adv i2"] length_adv [of i2] by (simp add: i3_def)
      from l1 l2 l3 f have "2 * length i3 < n" by simp
      from pv [OF this] obtain vevs r where v: "parse_value F dbg n i3 = Some (vevs, r)"
        by (cases "parse_value F dbg n i3") auto
      show ?thesis
      proof (cases r)
        case (Inl e)
        with q k \<open>kr = Inr i1\<close> c v show ?thesis
          by (simp add: object_loop.simps Let_def i2_def i3_def)
      next
        case (Inr i4)
        from parse_value_shrinks [of F dbg n i3 vevs i4] v Inr have l4: "length i4 < length i3"
          by simp
        define i5 where "i5 = skip_whitespace i4"
        have l5: "length i5 \<le> length i4" by (simp add: i5_def length_skip_whitespace)
        show ?thesis
        proof (cases "cur i5 = CHR '',''")
          case True
          with length_skip_whitespace [of "adv i5"] length_adv [of i5] l1 l2 l3 l4 l5 f
          have "2 * length (skip_whitespace (adv i5)) < n" by simp
          from ol [OF this] q k \<open>kr = Inr i1\<close> c v Inr True show ?thesis
            by (simp add: object_loop.simps Let_def i2_def i3_def i5_def)
        next
          case False
          with q k \<open>kr = Inr i1\<close> c v Inr show ?thesis
            by (simp add: object_loop.simps Let_def i2_def i3_def i5_def)
        qed
      qed
    qed
  qed
qed

lemma parser_total:
  "(\<forall>it. 2 * length it < n \<longrightarrow> parse_value F dbg n it \<noteq> None)
   \<and> (\<forall>it. 2 * length it < n \<longrightarrow> object_loop F dbg n it \<noteq> None)
   \<and> (\<forall>it. 2 * length it + 1 < n \<longrightarrow> array_loop F dbg n it \<noteq> None)"
proof (induction n)
  case 0
  show ?case by simp
next
  case (Suc n)
  then have pv: "\<And>i. 2 * length i < n \<Longrightarrow> parse_value F dbg n i \<noteq> None"
    and ol: "\<And>i. 2 * length i < n \<Longrightarrow> object_loop F dbg n i \<noteq> None"
    and al: "\<And>i. 2 * length i + 1 < n \<Longrightarrow> array_loop F dbg n i \<noteq> None"
    by blast+
  have po: "\<And>i. cur i = CHR ''{'' \<Longrightarrow> 2 * length i \<le> n \<Longrightarrow> parse_object F dbg n i \<noteq> None"
    by (rule parse_object_total [where F = F and dbg = dbg and n = n]) (auto dest: ol)
  have pa: "\<And>i. cur i = CHR ''['' \<Longrightarrow> 2 * length i \<le> n \<Longrightarrow> parse_array F dbg n i \<noteq> None"
  proof -
    fix i :: string assume c: "cur i = CHR ''[''" and f: "2 * length i \<le> n"
    show "parse_array F dbg n i \<noteq> None"
      by (rule parse_array_total [where F = F and dbg = dbg and n = n, OF al c f])
  qed
  have "\<And>i. 2 * length i < Suc n \<Longrightarrow> parse_value F dbg (Suc n) i \<noteq> None"
    by (rule parse_value_total_step [where F = F and dbg = dbg and n = n]) (auto dest: po pa)
  moreover
  have "\<And>i. 2 * length i < Suc n \<Longrightarrow> object_loop F dbg (Suc n) i \<noteq> None"
    by (rule object_loop_total_step [where F = F and dbg = dbg and n = n]) (auto dest: pv ol)
  moreover
  have "\<And>i. 2 * length i + 1 < Suc n \<Longrightarrow> array_loop F dbg (Suc n) i \<noteq> None"
  proof -
    fix i :: string assume f: "2 * length i + 1 < Suc n"
    show "array_loop F dbg (Suc n) i \<noteq> None"
      by (rule array_loop_total_step [where F = F and dbg = dbg and n = n, OF pv al f])
  qed
  ultimately show ?case by blast
qed

lemma parse_document_total: "parse_document F dbg (2 * length it + 2) it \<noteq> None"
proof -
  define i1 where "i1 = skip_whitespace it"
  have l: "length i1 \<le> length it" by (simp add: i1_def length_skip_whitespace)
  have ol: "\<And>i. 2 * length i < 2 * length it + 2 \<Longrightarrow> object_loop F dbg (2 * length it + 2) i \<noteq> None"
    using parser_total [of "2 * length it + 2" F dbg] by blast
  have al: "\<And>i. 2 * length i + 1 < 2 * length it + 2 \<Longrightarrow> array_loop F dbg (2 * length it + 2) i \<noteq> None"
    using parser_total [of "2 * length it + 2" F dbg] by blast
  have po: "cur i1 = CHR ''{'' \<Longrightarrow> parse_object F dbg (2 * length it + 2) i1 \<noteq> None"
    using l by (intro parse_object_total ol) auto
  have pa: "cur i1 = CHR ''['' \<Longrightarrow> parse_array F dbg (2 * length it + 2) i1 \<noteq> None"
    using l by (intro parse_array_total al) auto
  show ?thesis
    using po pa
    by (auto simp: parse_document_def Let_def i1_def [symmetric] split: option.splits sum.splits)
qed

lemma parse_total: "parse F dbg str \<noteq> None"
  using parse_document_total [of F dbg "c_str str"]
  by (auto simp: parse_def Let_def split: option.splits)


subsection \<open>Rejected documents\<close>


lemmas parser_simps = parse_value.simps object_loop.simps array_loop.simps
  parse_object.simps parse_array.simps

lemmas builder_defs = new_builder_def set_top_def store_def deref_def append_child_def
  put_child_def put_child_named_def get_length_def get_string_def is_null_def is_array_def
  is_object_def is_string_def resize_def

lemma parse_open_brace: "parse F dbg ''{'' = Some (throw ''expected string'')"
  by (simp add: parse_def c_str_def parse_document_def numeral_eq_Suc throw_def
      parser_simps builder_defs)

lemma parse_bare_number: "parse F dbg ''01'' = Some (throw ''expected object or array'')"
  by (simp add: parse_def c_str_def parse_document_def throw_def builder_defs)

lemma parse_bare_string:
  "parse F dbg [CHR 0x22, CHR 0x5C, CHR ''x'', CHR 0x22] = Some (throw ''expected object or array'')"
  by (simp add: parse_def c_str_def parse_document_def throw_def builder_defs)

lemma parse_trailing_comma: "parse F dbg ''[1,]'' = Some (throw ''expected integer'')"
  by (simp add: parse_def c_str_def parse_document_def numeral_eq_Suc throw_def
      parser_simps builder_defs parse_number_def number_integer_def number_fraction_def
      number_exponent_def is_digit_def double_zero_def Let_def)

lemma parse_unknown_escape:
  "parse F dbg (''['' @ [CHR 0x22, CHR 0x5C, CHR ''x'', CHR 0x22] @ '']'') = Some (throw ''expected escape'')"
  by (simp add: parse_def c_str_def parse_document_def numeral_eq_Suc throw_def
      parser_simps builder_defs parse_string_def psl_bad_escape Let_def)

lemma parse_leading_zero:
  "parse F dbg ''[01]'' = Some (throw ''expected value-separator or end-array'')"
  by (simp add: parse_def c_str_def parse_document_def numeral_eq_Suc throw_def
      parser_simps builder_defs parse_number_def number_integer_def number_fraction_def
      number_exponent_def is_digit_def double_zero_def Let_def)

lemma parse_not_root:
  assumes "cur (skip_whitespace (c_str str)) \<noteq> CHR ''{''"
    and "cur (skip_whitespace (c_str str)) \<noteq> CHR ''[''"
  shows "parse F dbg str = Some (throw ''expected object or array'')"
  using assms by (simp add: parse_def parse_document_def Let_def throw_def new_builder_def)

lemma parse_value_root:
  assumes "parse F dbg str = Some (Inr v)"
  shows "\<exists>evs rest.
           (parse_object F dbg (2 * length (c_str str) + 2) (skip_whitespace (c_str str))
              = Some (evs, Inr rest)
            \<or> parse_array F dbg (2 * length (c_str str) + 2) (skip_whitespace (c_str str))
              = Some (evs, Inr rest))
           \<and> cur (skip_whitespace rest) = CHR 0x00"
  using assms
  by (auto simp: parse_def parse_document_def Let_def throw_def
      split: option.splits sum.splits if_splits) blast+

text \<open>
  Claim C8. The inputs \<open>{\<close>, \<open>[1,]\<close>, \<open>01\<close> and the string literal with the escape \<open>\x\<close> each
  end in the exception of the parser; the last two because they are bare scalars, and
  inside an array the unknown escape and the leading zero are refused as well. Every
  call of \<open>parse\<close> returns (a value or an error). A document whose first character behind
  the white space is neither \<open>{\<close> nor \<open>[\<close> is refused, and when \<open>parse\<close> returns a value the
  root object or array was followed by white space only, up to the terminator.
\<close>

theorem rejection_cases:
  "parse F dbg ''{'' = Some (throw ''expected string'')
   \<and> parse F dbg ''[1,]'' = Some (throw ''expected integer'')
   \<and> parse F dbg ''01'' = Some (throw ''expected object or array'')
   \<and> parse F dbg [CHR 0x22, CHR 0x5C, CHR ''x'', CHR 0x22]
       = Some (throw ''expected object or array'')
   \<and> parse F dbg (''['' @ [CHR 0x22, CHR 0x5C, CHR ''x'', CHR 0x22] @ '']'')
       = Some (throw ''expected escape'')
   \<and> parse F dbg ''[01]'' = Some (throw ''expected value-separator or end-array'')
   \<and> parse F dbg str \<noteq> None
   \<and> (cur (skip_whitespace (c_str str)) \<noteq> CHR ''{''
        \<and> cur (skip_whitespace (c_str str)) \<noteq> CHR ''['' \<longrightarrow>
      parse F dbg str = Some (throw ''expected object or array''))
   \<and> (parse F dbg str = Some (Inr v) \<longrightarrow>
      (\<exists>evs rest.
         (parse_object F dbg (2 * length (c_str str) + 2) (skip_whitespace (c_str str))
            = Some (evs, Inr rest)
          \<or> parse_array F dbg (2 * length (c_str str) + 2) (skip_whitespace (c_str str))
            = Some (evs, Inr rest))
         \<and> cur (skip_whitespace rest) = CHR 0x00))"
  using parse_open_brace [of F dbg] parse_trailing_comma [of F dbg] parse_bare_number [of F dbg]
    parse_bare_string [of F dbg] parse_unknown_escape [of F dbg] parse_leading_zero [of F dbg]
    parse_total [of F dbg str] parse_not_root [of str F dbg] parse_value_root [of F dbg str v]
  by (intro conjI impI) (assumption | blast)+

theorem rejection_cases_witness:
  "cur (skip_whitespace (c_str ''7'')) \<noteq> CHR ''{''
   \<and> cur (skip_whitespace (c_str ''7'')) \<noteq> CHR ''[''
   \<and> parse no_fpu True ''7'' = Some (throw ''expected object or array'')
   \<and> parse no_fpu True ''[] '' = Some (Inr (JArray []))
   \<and> (\<exists>evs rest.
         (parse_object no_fpu True (2 * length (c_str ''[] '') + 2) (skip_whitespace (c_str ''[] ''))
            = Some (evs, Inr rest)
          \<or> parse_array no_fpu True (2 * length (c_str ''[] '') + 2) (skip_whitespace (c_str ''[] ''))
            = Some (evs, Inr rest))
         \<and> cur (skip_whitespace rest) = CHR 0x00)"
proof -
  have a: "cur (skip_whitespace (c_str ''7'')) \<noteq> CHR ''{''"
    "cur (skip_whitespace (c_str ''7'')) \<noteq> CHR ''[''"
    by (simp_all add: c_str_def)
  have b: "parse no_fpu True ''[] '' = Some (Inr (JArray []))"
    by (simp add: parse_def c_str_def parse_document_def parser_simps builder_defs)
  from rejection_cases [where F = no_fpu and dbg = True and str = "''7''"] a
    rejection_cases [where F = no_fpu and dbg = True and str = "''[] ''" and v = "JArray []"] b
  show ?thesis by blast
qed


subsection \<open>What the writers emit\<close>







lemma p_skip_same: "p_skip p = s \<Longrightarrow> p\<lparr>p_skip := s\<rparr> = p"
  by auto




subsection \<open>A quoted string is read back\<close>


lemma write_runs_Nil [simp]: "write_runs [] = []"
  by (subst write_runs.simps) simp













subsection \<open>The parser reads the text of a value\<close>

























lemma skip_whitespace_bracket [simp]:
  "skip_whitespace (CHR '']'' # t) = CHR '']'' # t"
  "skip_whitespace (CHR ''}'' # t) = CHR ''}'' # t"
  "skip_whitespace (CHR '','' # t) = CHR '','' # t"
  by simp_all



subsection \<open>The builder rebuilds a value from its calls\<close>























lemma end_value_pop:
  "b_stack b = ptr # st \<Longrightarrow> builder_call dbg end_value b = Inr (b\<lparr>b_stack := st\<rparr>)"
  by simp




subsection \<open>The parser reads back what the writers emit\<close>












subsection \<open>Round trip\<close>




end
